theory Spec2Isabelle
  imports Main
begin

section \<open>Tokens of the CSS tokenizer\<close>

text \<open>
  The parser of \<^verbatim>\<open>cssParser.ts\<close> consumes the token objects of the tokenizer. Every token
  answers \<^verbatim>\<open>toSource()\<close>; identifier, function, delimiter and string tokens carry a string
  \<^verbatim>\<open>value\<close>, number tokens a numeric one. The numeric type is left open (\<open>'n\<close>): the
  parser only passes numbers through. \<open>OtherToken\<close> stands for the token classes the
  parser never names (open parenthesis, dimension, match operators).
\<close>

datatype 'n token =
    AtKeywordToken (toSource: string)
  | BadStringToken (toSource: string)
  | BadURLToken (toSource: string)
  | ColumnToken (toSource: string)
  | CDOToken (toSource: string)
  | CDCToken (toSource: string)
  | SemicolonToken (toSource: string)
  | OpenCurlyToken (toSource: string)
  | CloseCurlyToken (toSource: string)
  | URLToken (toSource: string)
  | PercentageToken (toSource: string)
  | WhitespaceToken (toSource: string)
  | IdentToken (toSource: string) (val: string)
  | StringToken (toSource: string) (val: string)
  | NumberToken (toSource: string) (num: 'n)
  | CommaToken (toSource: string)
  | CloseParenToken (toSource: string)
  | DelimToken (toSource: string) (val: string)
  | EOFToken (toSource: string)
  | HashToken (toSource: string)
  | ColonToken (toSource: string)
  | FunctionToken (toSource: string) (val: string)
  | OpenSquareToken (toSource: string)
  | CloseSquareToken (toSource: string)
  | OtherToken (toSource: string)

section \<open>The selector tree\<close>

datatype 'n CSSFunctionArgument =
    ArgSelector (complexSelector: "'n CSSComplexSelector")
  | ArgNumber 'n
  | ArgString string
and 'n CSSFunction = CSSFunction (name: string) (args: "'n CSSFunctionArgument list")
and 'n CSSSimpleSelector =
    CSSSimpleSelector (css: "string option") (functions': "'n CSSFunction list")
and 'n CSSClause = CSSClause (selector: "'n CSSSimpleSelector") (combinator: string)
and 'n CSSComplexSelector = CSSComplexSelector (simple: "'n CSSClause list")

datatype error = Error string | TypeError

section \<open>The cursor and the token tests\<close>

definition tokAt :: "'n token list \<Rightarrow> nat \<Rightarrow> 'n token option" where
  "tokAt tokens p = (if p < length tokens then Some (tokens ! p) else None)"

definition dq :: string where
  "dq = [CHR 0x22]"

definition unexpected :: "string \<Rightarrow> 'n token list \<Rightarrow> nat \<Rightarrow> error" where
  "unexpected sel tokens pos =
     (case tokAt tokens pos of
        None \<Rightarrow> TypeError
      | Some t \<Rightarrow> Error (''Unexpected token '' @ dq @ toSource t @ dq @
                         '' while parsing selector '' @ dq @ sel @ dq))"

definition isWhitespace :: "'n token list \<Rightarrow> nat \<Rightarrow> bool" where
  "isWhitespace tokens p = (case tokAt tokens p of Some t \<Rightarrow> is_WhitespaceToken t | None \<Rightarrow> False)"

definition isIdent :: "'n token list \<Rightarrow> nat \<Rightarrow> bool" where
  "isIdent tokens p = (case tokAt tokens p of Some t \<Rightarrow> is_IdentToken t | None \<Rightarrow> False)"

definition isString :: "'n token list \<Rightarrow> nat \<Rightarrow> bool" where
  "isString tokens p = (case tokAt tokens p of Some t \<Rightarrow> is_StringToken t | None \<Rightarrow> False)"

definition isNumber :: "'n token list \<Rightarrow> nat \<Rightarrow> bool" where
  "isNumber tokens p = (case tokAt tokens p of Some t \<Rightarrow> is_NumberToken t | None \<Rightarrow> False)"

definition isComma :: "'n token list \<Rightarrow> nat \<Rightarrow> bool" where
  "isComma tokens p = (case tokAt tokens p of Some t \<Rightarrow> is_CommaToken t | None \<Rightarrow> False)"

definition isCloseParen :: "'n token list \<Rightarrow> nat \<Rightarrow> bool" where
  "isCloseParen tokens p = (case tokAt tokens p of Some t \<Rightarrow> is_CloseParenToken t | None \<Rightarrow> False)"

definition isDelim :: "string \<Rightarrow> 'n token list \<Rightarrow> nat \<Rightarrow> bool" where
  "isDelim v tokens p =
     (case tokAt tokens p of Some t \<Rightarrow> is_DelimToken t \<and> val t = v | None \<Rightarrow> False)"

definition isStar :: "'n token list \<Rightarrow> nat \<Rightarrow> bool" where
  "isStar tokens p = isDelim ''*'' tokens p"

definition isEOF :: "'n token list \<Rightarrow> nat \<Rightarrow> bool" where
  "isEOF tokens p = (case tokAt tokens p of Some t \<Rightarrow> is_EOFToken t | None \<Rightarrow> False)"

definition isClauseCombinator :: "'n token list \<Rightarrow> nat \<Rightarrow> bool" where
  "isClauseCombinator tokens p =
     (case tokAt tokens p of
        Some t \<Rightarrow> is_DelimToken t \<and> val t \<in> set [''>'', ''+'', ''~'']
      | None \<Rightarrow> False)"

definition isSelectorClauseEnd :: "'n token list \<Rightarrow> nat \<Rightarrow> bool" where
  "isSelectorClauseEnd tokens p =
     (isComma tokens p \<or> isCloseParen tokens p \<or> isEOF tokens p \<or>
      isClauseCombinator tokens p \<or> isWhitespace tokens p)"

definition isHash :: "'n token list \<Rightarrow> nat \<Rightarrow> bool" where
  "isHash tokens p = (case tokAt tokens p of Some t \<Rightarrow> is_HashToken t | None \<Rightarrow> False)"

definition isColon :: "'n token list \<Rightarrow> nat \<Rightarrow> bool" where
  "isColon tokens p = (case tokAt tokens p of Some t \<Rightarrow> is_ColonToken t | None \<Rightarrow> False)"

definition isFunction :: "'n token list \<Rightarrow> nat \<Rightarrow> bool" where
  "isFunction tokens p = (case tokAt tokens p of Some t \<Rightarrow> is_FunctionToken t | None \<Rightarrow> False)"

definition isOpenSquare :: "'n token list \<Rightarrow> nat \<Rightarrow> bool" where
  "isOpenSquare tokens p = (case tokAt tokens p of Some t \<Rightarrow> is_OpenSquareToken t | None \<Rightarrow> False)"

definition isCloseSquare :: "'n token list \<Rightarrow> nat \<Rightarrow> bool" where
  "isCloseSquare tokens p = (case tokAt tokens p of Some t \<Rightarrow> is_CloseSquareToken t | None \<Rightarrow> False)"

definition builtinCSSFilters :: "string list" where
  "builtinCSSFilters =
     [''active'', ''any-link'', ''checked'', ''blank'', ''default'', ''defined'',
      ''disabled'', ''empty'', ''enabled'', ''first'', ''first-child'', ''first-of-type'',
      ''fullscreen'', ''focus'', ''focus-visible'', ''focus-within'', ''hover'',
      ''indeterminate'', ''in-range'', ''invalid'', ''last-child'', ''last-of-type'',
      ''link'', ''only-child'', ''only-of-type'', ''optional'', ''out-of-range'',
      ''placeholder-shown'', ''read-only'', ''read-write'', ''required'', ''root'',
      ''target'', ''valid'', ''visited'']"

definition builtinCSSFunctions :: "string list" where
  "builtinCSSFunctions =
     [''dir'', ''lang'', ''nth-child'', ''nth-last-child'', ''nth-last-of-type'', ''nth-of-type'']"

section \<open>The loops that copy tokens verbatim\<close>

function skipWhitespace :: "'n token list \<Rightarrow> nat \<Rightarrow> nat" where
  "skipWhitespace tokens pos =
     (if isWhitespace tokens pos then skipWhitespace tokens (pos + 1) else pos)"
  by pat_completeness auto
termination
  by (relation "measure (\<lambda>(tokens, pos). length tokens - pos)")
     (auto simp: isWhitespace_def tokAt_def split: if_splits)

declare skipWhitespace.simps [simp del]

text \<open>
  \<^verbatim>\<open>while (!isCloseParen() && !isEOF()) s += tokens[pos++].toSource();\<close>
  Past the end of the array neither test holds and the read of \<^verbatim>\<open>toSource\<close> throws.
\<close>

function consumeBuiltinFunctionArguments_loop ::
  "'n token list \<Rightarrow> nat \<Rightarrow> string \<Rightarrow> error + (string \<times> nat)" where
  "consumeBuiltinFunctionArguments_loop tokens pos s =
     (if \<not> isCloseParen tokens pos \<and> \<not> isEOF tokens pos then
        (case tokAt tokens pos of
           None \<Rightarrow> Inl TypeError
         | Some t \<Rightarrow> consumeBuiltinFunctionArguments_loop tokens (pos + 1) (s @ toSource t))
      else Inr (s, pos))"
  by pat_completeness auto
termination
  by (relation "measure (\<lambda>(tokens, pos, s). length tokens - pos)")
     (auto simp: tokAt_def split: if_splits)

declare consumeBuiltinFunctionArguments_loop.simps [simp del]

definition consumeBuiltinFunctionArguments ::
  "'n token list \<Rightarrow> nat \<Rightarrow> error + (string \<times> nat)" where
  "consumeBuiltinFunctionArguments tokens pos = consumeBuiltinFunctionArguments_loop tokens pos []"

text \<open>
  The loop of the attribute branch:
  \<^verbatim>\<open>while (!(tokens[pos] instanceof css.CloseSquareToken) && !isEOF()) rawCSSString += tokens[pos++].toSource();\<close>
\<close>

function consumeSquare_loop ::
  "'n token list \<Rightarrow> nat \<Rightarrow> string \<Rightarrow> error + (string \<times> nat)" where
  "consumeSquare_loop tokens pos rawCSSString =
     (if \<not> isCloseSquare tokens pos \<and> \<not> isEOF tokens pos then
        (case tokAt tokens pos of
           None \<Rightarrow> Inl TypeError
         | Some t \<Rightarrow> consumeSquare_loop tokens (pos + 1) (rawCSSString @ toSource t))
      else Inr (rawCSSString, pos))"
  by pat_completeness auto
termination
  by (relation "measure (\<lambda>(tokens, pos, s). length tokens - pos)")
     (auto simp: tokAt_def split: if_splits)

declare consumeSquare_loop.simps [simp del]

section \<open>The recursive-descent parser\<close>

lemma skipWhitespace_ge: "pos \<le> skipWhitespace tokens pos"
  by (induction tokens pos rule: skipWhitespace.induct)
     (subst skipWhitespace.simps, auto)

lemma consumeBuiltinFunctionArguments_loop_ge:
  "consumeBuiltinFunctionArguments_loop tokens pos s = Inr (r, p) \<Longrightarrow> pos \<le> p"
  by (induction tokens pos s rule: consumeBuiltinFunctionArguments_loop.induct)
     (subst (asm) consumeBuiltinFunctionArguments_loop.simps,
      fastforce split: if_splits option.splits)

lemma consumeSquare_loop_ge:
  "consumeSquare_loop tokens pos s = Inr (r, p) \<Longrightarrow> pos \<le> p"
  by (induction tokens pos s rule: consumeSquare_loop.induct)
     (subst (asm) consumeSquare_loop.simps,
      fastforce split: if_splits option.splits)

lemma tokAt_Some_lt: "tokAt tokens p = Some t \<Longrightarrow> p < length tokens"
  by (simp add: tokAt_def split: if_splits)

lemma is_lt:
  "isWhitespace tokens p \<Longrightarrow> p < length tokens"
  "isIdent tokens p \<Longrightarrow> p < length tokens"
  "isString tokens p \<Longrightarrow> p < length tokens"
  "isNumber tokens p \<Longrightarrow> p < length tokens"
  "isComma tokens p \<Longrightarrow> p < length tokens"
  "isCloseParen tokens p \<Longrightarrow> p < length tokens"
  "isDelim v tokens p \<Longrightarrow> p < length tokens"
  "isStar tokens p \<Longrightarrow> p < length tokens"
  "isEOF tokens p \<Longrightarrow> p < length tokens"
  "isClauseCombinator tokens p \<Longrightarrow> p < length tokens"
  "isHash tokens p \<Longrightarrow> p < length tokens"
  "isColon tokens p \<Longrightarrow> p < length tokens"
  "isFunction tokens p \<Longrightarrow> p < length tokens"
  "isOpenSquare tokens p \<Longrightarrow> p < length tokens"
  "isCloseSquare tokens p \<Longrightarrow> p < length tokens"
  by (auto simp: isWhitespace_def isIdent_def isString_def isNumber_def isComma_def
      isCloseParen_def isDelim_def isStar_def isEOF_def isClauseCombinator_def isHash_def
      isColon_def isFunction_def isOpenSquare_def isCloseSquare_def tokAt_def
      split: if_splits option.splits)

function consumeFunctionArguments ::
    "string \<Rightarrow> 'n token list \<Rightarrow> nat \<Rightarrow> error + ('n CSSFunctionArgument list \<times> nat)"
  and consumeFunctionArguments_loop ::
    "string \<Rightarrow> 'n token list \<Rightarrow> nat \<Rightarrow> 'n CSSFunctionArgument list
       \<Rightarrow> error + ('n CSSFunctionArgument list \<times> nat)"
  and consumeArgument ::
    "string \<Rightarrow> 'n token list \<Rightarrow> nat \<Rightarrow> error + ('n CSSFunctionArgument \<times> nat)"
  and consumeComplexSelector ::
    "string \<Rightarrow> 'n token list \<Rightarrow> nat \<Rightarrow> error + ('n CSSComplexSelector \<times> nat)"
  and consumeComplexSelector_loop ::
    "string \<Rightarrow> 'n token list \<Rightarrow> nat \<Rightarrow> 'n CSSClause list
       \<Rightarrow> error + ('n CSSComplexSelector \<times> nat)"
  and consumeSimpleSelector ::
    "string \<Rightarrow> 'n token list \<Rightarrow> nat \<Rightarrow> error + ('n CSSSimpleSelector \<times> nat)"
  and consumeSimpleSelector_loop ::
    "string \<Rightarrow> 'n token list \<Rightarrow> nat \<Rightarrow> string \<Rightarrow> 'n CSSFunction list
       \<Rightarrow> error + ('n CSSSimpleSelector \<times> nat)"
where
  "consumeFunctionArguments sel tokens pos =
     (case consumeArgument sel tokens pos of
        Inl e \<Rightarrow> Inl e
      | Inr (a, pos1) \<Rightarrow> consumeFunctionArguments_loop sel tokens pos1 [a])"
| "consumeFunctionArguments_loop sel tokens pos result =
     (let pos1 = skipWhitespace tokens pos in
      if \<not> isComma tokens pos1 then Inr (result, pos1)
      else (case consumeArgument sel tokens (pos1 + 1) of
              Inl e \<Rightarrow> Inl e
            | Inr (a, pos2) \<Rightarrow> consumeFunctionArguments_loop sel tokens pos2 (result @ [a])))"
| "consumeArgument sel tokens pos =
     (let pos1 = skipWhitespace tokens pos in
      if isNumber tokens pos1 then Inr (ArgNumber (num (tokens ! pos1)), pos1 + 1)
      else if isString tokens pos1 then Inr (ArgString (val (tokens ! pos1)), pos1 + 1)
      else (case consumeComplexSelector sel tokens pos1 of
              Inl e \<Rightarrow> Inl e
            | Inr (c, pos2) \<Rightarrow> Inr (ArgSelector c, pos2)))"
| "consumeComplexSelector sel tokens pos =
     (let pos1 = skipWhitespace tokens pos in
      case consumeSimpleSelector sel tokens pos1 of
        Inl e \<Rightarrow> Inl e
      | Inr (s, pos2) \<Rightarrow> consumeComplexSelector_loop sel tokens pos2 [CSSClause s []])"
| "consumeComplexSelector_loop sel tokens pos result =
     (let pos1 = skipWhitespace tokens pos in
      if isClauseCombinator tokens pos1 then
        (if result = [] then Inl TypeError
         else
           let result1 = result[length result - 1 :=
                            CSSClause (selector (last result)) (val (tokens ! pos1))];
               pos2 = skipWhitespace tokens (pos1 + 1)
           in (case consumeSimpleSelector sel tokens pos2 of
                 Inl e \<Rightarrow> Inl e
               | Inr (s, pos3) \<Rightarrow>
                   consumeComplexSelector_loop sel tokens pos3 (result1 @ [CSSClause s []])))
      else if isSelectorClauseEnd tokens pos1 then Inr (CSSComplexSelector result, pos1)
      else (case consumeSimpleSelector sel tokens pos1 of
              Inl e \<Rightarrow> Inl e
            | Inr (s, pos3) \<Rightarrow>
                consumeComplexSelector_loop sel tokens pos3 (result @ [CSSClause s []])))"
| "consumeSimpleSelector sel tokens pos = consumeSimpleSelector_loop sel tokens pos [] []"
| "consumeSimpleSelector_loop sel tokens pos rawCSSString fs =
     (if \<not> isSelectorClauseEnd tokens pos then
        (if isIdent tokens pos \<or> isStar tokens pos then
           consumeSimpleSelector_loop sel tokens (pos + 1)
             (rawCSSString @ toSource (tokens ! pos)) fs
         else if isHash tokens pos then
           consumeSimpleSelector_loop sel tokens (pos + 1)
             (rawCSSString @ toSource (tokens ! pos)) fs
         else if isDelim ''.'' tokens pos then
           (if isIdent tokens (pos + 1) then
              consumeSimpleSelector_loop sel tokens (pos + 2)
                (rawCSSString @ ''.'' @ toSource (tokens ! (pos + 1))) fs
            else Inl (unexpected sel tokens (pos + 1)))
         else if isColon tokens pos then
           (if isIdent tokens (pos + 1) then
              (if val (tokens ! (pos + 1)) \<in> set builtinCSSFilters then
                 consumeSimpleSelector_loop sel tokens (pos + 2)
                   (rawCSSString @ '':'' @ toSource (tokens ! (pos + 1))) fs
               else
                 consumeSimpleSelector_loop sel tokens (pos + 2) rawCSSString
                   (fs @ [CSSFunction (val (tokens ! (pos + 1))) []]))
            else if isFunction tokens (pos + 1) then
              (let nm = val (tokens ! (pos + 1)) in
               if nm \<in> set builtinCSSFunctions then
                 (case consumeBuiltinFunctionArguments tokens (pos + 2) of
                    Inl e \<Rightarrow> Inl e
                  | Inr (s, pos1) \<Rightarrow>
                      let pos2 = skipWhitespace tokens pos1 in
                      if \<not> isCloseParen tokens pos2 then Inl (unexpected sel tokens pos2)
                      else consumeSimpleSelector_loop sel tokens (pos2 + 1)
                             (rawCSSString @ '':'' @ nm @ ''('' @ s @ '')'') fs)
               else
                 (case consumeFunctionArguments sel tokens (pos + 2) of
                    Inl e \<Rightarrow> Inl e
                  | Inr (as, pos1) \<Rightarrow>
                      let pos2 = skipWhitespace tokens pos1 in
                      if \<not> isCloseParen tokens pos2 then Inl (unexpected sel tokens pos2)
                      else consumeSimpleSelector_loop sel tokens (pos2 + 1) rawCSSString
                             (fs @ [CSSFunction nm as])))
            else Inl (unexpected sel tokens (pos + 1)))
         else if isOpenSquare tokens pos then
           (case consumeSquare_loop tokens (pos + 1) (rawCSSString @ ''['') of
              Inl e \<Rightarrow> Inl e
            | Inr (s, pos1) \<Rightarrow>
                if \<not> isCloseSquare tokens pos1 then Inl (unexpected sel tokens pos1)
                else consumeSimpleSelector_loop sel tokens (pos1 + 1) (s @ '']'') fs)
         else Inl (unexpected sel tokens pos))
      else if rawCSSString = [] \<and> fs = [] then Inl (unexpected sel tokens pos)
      else Inr (CSSSimpleSelector (if rawCSSString = [] then None else Some rawCSSString) fs,
                pos))"
  by pat_completeness auto

abbreviation (input) "parser_dom \<equiv> consumeFunctionArguments_consumeFunctionArguments_loop_consumeArgument_consumeComplexSelector_consumeComplexSelector_loop_consumeSimpleSelector_consumeSimpleSelector_loop_dom"

lemma progress_partial:
  shows "parser_dom (Inl (Inl (sel, tokens, pos))) \<Longrightarrow>
           (\<forall>r p. consumeFunctionArguments sel tokens pos = Inr (r, p) \<longrightarrow> pos \<le> p)"
    and "parser_dom (Inl (Inr (Inl (sel, tokens, pos, result)))) \<Longrightarrow>
           (\<forall>r p. consumeFunctionArguments_loop sel tokens pos result = Inr (r, p) \<longrightarrow> pos \<le> p)"
    and "parser_dom (Inl (Inr (Inr (sel, tokens, pos)))) \<Longrightarrow>
           (\<forall>r p. consumeArgument sel tokens pos = Inr (r, p) \<longrightarrow> pos \<le> p)"
    and "parser_dom (Inr (Inl (Inl (sel, tokens, pos)))) \<Longrightarrow>
           (\<forall>r p. consumeComplexSelector sel tokens pos = Inr (r, p) \<longrightarrow> pos \<le> p)"
    and "parser_dom (Inr (Inl (Inr (sel, tokens, pos, clauses)))) \<Longrightarrow>
           (\<forall>r p. consumeComplexSelector_loop sel tokens pos clauses = Inr (r, p) \<longrightarrow> pos \<le> p)"
    and "parser_dom (Inr (Inr (Inl (sel, tokens, pos)))) \<Longrightarrow>
           (\<forall>r p. consumeSimpleSelector sel tokens pos = Inr (r, p) \<longrightarrow>
              pos \<le> p \<and> (\<not> isSelectorClauseEnd tokens pos \<longrightarrow> pos < p \<and> pos < length tokens))"
    and "parser_dom (Inr (Inr (Inr (sel, tokens, pos, rawCSSString, fs)))) \<Longrightarrow>
           (\<forall>r p. consumeSimpleSelector_loop sel tokens pos rawCSSString fs = Inr (r, p) \<longrightarrow>
              pos \<le> p \<and> (\<not> isSelectorClauseEnd tokens pos \<longrightarrow> pos < p \<and> pos < length tokens))"
proof (induct rule: consumeFunctionArguments_consumeFunctionArguments_loop_consumeArgument_consumeComplexSelector_consumeComplexSelector_loop_consumeSimpleSelector_consumeSimpleSelector_loop.pinduct)
  case (1 sel tokens pos)
  then show ?case
    by (fastforce simp: consumeFunctionArguments.psimps split: sum.splits prod.splits)
next
  case (2 sel tokens pos result)
  show ?case
  proof (intro allI impI)
    fix r p
    assume res: "consumeFunctionArguments_loop sel tokens pos result = Inr (r, p)"
    let ?p1 = "skipWhitespace tokens pos"
    have ge: "pos \<le> ?p1" by (rule skipWhitespace_ge)
    show "pos \<le> p"
    proof (cases "isComma tokens ?p1")
      case False
      with res 2(1) ge show ?thesis
        by (simp add: consumeFunctionArguments_loop.psimps Let_def)
    next
      case True
      with res 2(1) obtain a pos2
        where a: "consumeArgument sel tokens (?p1 + 1) = Inr (a, pos2)"
          and l: "consumeFunctionArguments_loop sel tokens pos2 (result @ [a]) = Inr (r, p)"
        by (auto simp: consumeFunctionArguments_loop.psimps Let_def split: sum.splits)
      from 2(2) True a have "?p1 + 1 \<le> pos2" by auto
      moreover from 2(3) True a l have "pos2 \<le> p" by auto
      ultimately show ?thesis using ge by linarith
    qed
  qed
next
  case (3 sel tokens pos)
  show ?case
  proof (intro allI impI)
    fix r p
    assume res: "consumeArgument sel tokens pos = Inr (r, p)"
    let ?p1 = "skipWhitespace tokens pos"
    have ge: "pos \<le> ?p1" by (rule skipWhitespace_ge)
    from res 3 ge show "pos \<le> p"
      by (fastforce simp: consumeArgument.psimps Let_def split: if_splits sum.splits)
  qed
next
  case (4 sel tokens pos)
  show ?case
  proof (intro allI impI)
    fix r p
    assume res: "consumeComplexSelector sel tokens pos = Inr (r, p)"
    let ?p1 = "skipWhitespace tokens pos"
    have ge: "pos \<le> ?p1" by (rule skipWhitespace_ge)
    from res 4(1) obtain s pos2
      where a: "consumeSimpleSelector sel tokens ?p1 = Inr (s, pos2)"
        and l: "consumeComplexSelector_loop sel tokens pos2 [CSSClause s []] = Inr (r, p)"
      by (auto simp: consumeComplexSelector.psimps Let_def split: sum.splits)
    from 4(2) a have "?p1 \<le> pos2" by auto
    moreover from 4(3) a l have "pos2 \<le> p" by auto
    ultimately show "pos \<le> p" using ge by linarith
  qed
next
  case (5 sel tokens pos result)
  show ?case
  proof (intro allI impI)
    fix r p
    assume res: "consumeComplexSelector_loop sel tokens pos result = Inr (r, p)"
    let ?p1 = "skipWhitespace tokens pos"
    let ?p2 = "skipWhitespace tokens (?p1 + 1)"
    have ge: "pos \<le> ?p1" by (rule skipWhitespace_ge)
    have ge2: "?p1 + 1 \<le> ?p2" by (rule skipWhitespace_ge)
    show "pos \<le> p"
    proof (cases "isClauseCombinator tokens ?p1")
      case True
      with res 5(1) obtain s pos3 where ne: "result \<noteq> []"
        and a: "consumeSimpleSelector sel tokens ?p2 = Inr (s, pos3)"
        and l: "consumeComplexSelector_loop sel tokens pos3
                  (result[length result - 1 :=
                     CSSClause (selector (last result)) (val (tokens ! ?p1))] @ [CSSClause s []])
                = Inr (r, p)"
        by (auto simp: consumeComplexSelector_loop.psimps Let_def split: sum.splits if_splits)
      from 5(2) True ne a have "?p2 \<le> pos3" by auto
      moreover from 5(3) True ne a l have "pos3 \<le> p" by auto
      ultimately show ?thesis using ge ge2 by linarith
    next
      case False
      show ?thesis
      proof (cases "isSelectorClauseEnd tokens ?p1")
        case True
        with False res 5(1) ge show ?thesis
          by (simp add: consumeComplexSelector_loop.psimps Let_def)
      next
        case nend: False
        with False res 5(1) obtain s pos3
          where a: "consumeSimpleSelector sel tokens ?p1 = Inr (s, pos3)"
            and l: "consumeComplexSelector_loop sel tokens pos3 (result @ [CSSClause s []]) = Inr (r, p)"
          by (auto simp: consumeComplexSelector_loop.psimps Let_def split: sum.splits)
        from 5(4) False nend a have "?p1 \<le> pos3" by auto
        moreover from 5(5) False nend a l have "pos3 \<le> p" by auto
        ultimately show ?thesis using ge by linarith
      qed
    qed
  qed
next
  case (6 sel tokens pos)
  then show ?case
    by (simp add: consumeSimpleSelector.psimps)
next
  case (7 sel tokens pos rawCSSString fs)
  note eq = consumeSimpleSelector_loop.psimps[OF 7(1)]
  show ?case
  proof (intro allI impI)
    fix r p
    assume res: "consumeSimpleSelector_loop sel tokens pos rawCSSString fs = Inr (r, p)"
    show "pos \<le> p \<and> (\<not> isSelectorClauseEnd tokens pos \<longrightarrow> pos < p \<and> pos < length tokens)"
    proof (cases "isSelectorClauseEnd tokens pos")
      case True
      with res eq show ?thesis by (simp split: if_splits)
    next
      case nend: False
      have "pos < p \<and> pos < length tokens"
      proof (cases "isIdent tokens pos \<or> isStar tokens pos")
        case True
        with res eq nend
        have "consumeSimpleSelector_loop sel tokens (pos + 1)
                (rawCSSString @ toSource (tokens ! pos)) fs = Inr (r, p)"
          by simp
        with 7(2) nend True have "pos + 1 \<le> p" by simp
        moreover from True have "pos < length tokens" by (auto dest: is_lt)
        ultimately show ?thesis by simp
      next
        case b1: False
        show ?thesis
        proof (cases "isHash tokens pos")
          case True
          with res eq nend b1
          have "consumeSimpleSelector_loop sel tokens (pos + 1)
                  (rawCSSString @ toSource (tokens ! pos)) fs = Inr (r, p)"
            by simp
          with 7(3) nend b1 True have "pos + 1 \<le> p" by simp
          moreover from True have "pos < length tokens" by (auto dest: is_lt)
          ultimately show ?thesis by simp
        next
          case b2: False
          show ?thesis
          proof (cases "isDelim ''.'' tokens pos")
            case True
            with res eq nend b1 b2
            have id: "isIdent tokens (pos + 1)"
              and "consumeSimpleSelector_loop sel tokens (pos + 2)
                    (rawCSSString @ ''.'' @ toSource (tokens ! (pos + 1))) fs = Inr (r, p)"
              by (simp_all split: if_splits)
            with 7(4) nend b1 b2 True have "pos + 2 \<le> p" by simp
            moreover from True have "pos < length tokens" by (rule is_lt)
            ultimately show ?thesis by simp
          next
            case b3: False
            show ?thesis
            proof (cases "isColon tokens pos")
              case True
              have lt: "pos < length tokens" using True by (rule is_lt)
              show ?thesis
              proof (cases "isIdent tokens (pos + 1)")
                case id: True
                show ?thesis
                proof (cases "val (tokens ! (pos + 1)) \<in> set builtinCSSFilters")
                  case f: True
                  with res eq nend b1 b2 b3 True id
                  have "consumeSimpleSelector_loop sel tokens (pos + 2)
                          (rawCSSString @ '':'' @ toSource (tokens ! (pos + 1))) fs = Inr (r, p)"
                    by simp
                  with 7(5) nend b1 b2 b3 True id f have "pos + 2 \<le> p" by simp
                  with lt show ?thesis by simp
                next
                  case f: False
                  with res eq nend b1 b2 b3 True id
                  have "consumeSimpleSelector_loop sel tokens (pos + 2) rawCSSString
                          (fs @ [CSSFunction (val (tokens ! (pos + 1))) []]) = Inr (r, p)"
                    by simp
                  with 7(6) nend b1 b2 b3 True id f have "pos + 2 \<le> p" by simp
                  with lt show ?thesis by simp
                qed
              next
                case id: False
                with res eq nend b1 b2 b3 True
                have fn: "isFunction tokens (pos + 1)" by (simp split: if_splits)
                show ?thesis
                proof (cases "val (tokens ! (pos + 1)) \<in> set builtinCSSFunctions")
                  case f: True
                  with res eq nend b1 b2 b3 True id fn
                  obtain s pos1
                    where b: "consumeBuiltinFunctionArguments tokens (pos + 2) = Inr (s, pos1)"
                      and cp: "isCloseParen tokens (skipWhitespace tokens pos1)"
                      and l: "consumeSimpleSelector_loop sel tokens (skipWhitespace tokens pos1 + 1)
                                (rawCSSString @ '':'' @ val (tokens ! (pos + 1)) @ ''('' @ s @ '')'') fs
                              = Inr (r, p)"
                    by (auto simp: Let_def split: sum.splits if_splits)
                  from 7(7) nend b1 b2 b3 True id fn f b cp l
                  have "skipWhitespace tokens pos1 + 1 \<le> p" by simp
                  moreover from b have "pos + 2 \<le> pos1"
                    unfolding consumeBuiltinFunctionArguments_def
                    by (rule consumeBuiltinFunctionArguments_loop_ge)
                  moreover have "pos1 \<le> skipWhitespace tokens pos1" by (rule skipWhitespace_ge)
                  ultimately show ?thesis using lt by simp
                next
                  case f: False
                  with res eq nend b1 b2 b3 True id fn
                  obtain as pos1
                    where b: "consumeFunctionArguments sel tokens (pos + 2) = Inr (as, pos1)"
                      and cp: "isCloseParen tokens (skipWhitespace tokens pos1)"
                      and l: "consumeSimpleSelector_loop sel tokens (skipWhitespace tokens pos1 + 1)
                                rawCSSString (fs @ [CSSFunction (val (tokens ! (pos + 1))) as])
                              = Inr (r, p)"
                    by (auto simp: Let_def split: sum.splits if_splits)
                  from 7(9) nend b1 b2 b3 True id fn f b cp l
                  have "skipWhitespace tokens pos1 + 1 \<le> p" by simp
                  moreover from 7(8) nend b1 b2 b3 True id fn f b
                  have "pos + 2 \<le> pos1" by simp
                  moreover have "pos1 \<le> skipWhitespace tokens pos1" by (rule skipWhitespace_ge)
                  ultimately show ?thesis using lt by simp
                qed
              qed
            next
              case b4: False
              with res eq nend b1 b2 b3
              have sq: "isOpenSquare tokens pos" by (simp split: if_splits)
              with res eq nend b1 b2 b3 b4
              obtain s pos1
                where b: "consumeSquare_loop tokens (pos + 1) (rawCSSString @ ''['') = Inr (s, pos1)"
                  and cs: "isCloseSquare tokens pos1"
                  and l: "consumeSimpleSelector_loop sel tokens (pos1 + 1) (s @ '']'') fs = Inr (r, p)"
                by (auto simp: Let_def split: sum.splits if_splits)
              from 7(10) nend b1 b2 b3 b4 sq b cs l have "pos1 + 1 \<le> p" by simp
              moreover from b have "pos + 1 \<le> pos1" by (rule consumeSquare_loop_ge)
              moreover from sq have "pos < length tokens" by (rule is_lt)
              ultimately show ?thesis by simp
            qed
          qed
        qed
      qed
      then show ?thesis by simp
    qed
  qed
qed

lemmas pp = progress_partial[rule_format]

termination consumeFunctionArguments
  apply (relation "measure (\<lambda>x. case x of
      Inl (Inl (sel, tokens, pos)) \<Rightarrow> 7 * (length tokens - pos) + 6
    | Inl (Inr (Inl (sel, tokens, pos, r))) \<Rightarrow> 7 * (length tokens - pos) + 5
    | Inl (Inr (Inr (sel, tokens, pos))) \<Rightarrow> 7 * (length tokens - pos) + 5
    | Inr (Inl (Inl (sel, tokens, pos))) \<Rightarrow> 7 * (length tokens - pos) + 4
    | Inr (Inl (Inr (sel, tokens, pos, r))) \<Rightarrow> 7 * (length tokens - pos) + 3
    | Inr (Inr (Inl (sel, tokens, pos))) \<Rightarrow> 7 * (length tokens - pos) + 2
    | Inr (Inr (Inr (sel, tokens, pos, r, f))) \<Rightarrow> 7 * (length tokens - pos) + 1)")
  apply simp_all
  apply (auto dest!: pp(3) pp(6) pp(1) is_lt consumeSquare_loop_ge consumeBuiltinFunctionArguments_loop_ge simp: consumeBuiltinFunctionArguments_def)
  subgoal for tokens pos using skipWhitespace_ge[of pos tokens] by arith
  subgoal for sel tokens pos a b using skipWhitespace_ge[of pos tokens] by arith
  subgoal for tokens pos using skipWhitespace_ge[of pos tokens] by arith
  subgoal for tokens pos using skipWhitespace_ge[of pos tokens] by arith
  subgoal for sel tokens pos a b using skipWhitespace_ge[of pos tokens] by arith
  subgoal for sel tokens pos a b using skipWhitespace_ge[of pos tokens] by arith
  subgoal for tokens pos result
    using skipWhitespace_ge[of pos tokens]
      skipWhitespace_ge[of "Suc (skipWhitespace tokens pos)" tokens] by arith
  subgoal for sel tokens pos result a b
    using skipWhitespace_ge[of pos tokens]
      skipWhitespace_ge[of "Suc (skipWhitespace tokens pos)" tokens] by arith
  subgoal for sel tokens pos result a b
    using skipWhitespace_ge[of pos tokens]
      skipWhitespace_ge[of "Suc (skipWhitespace tokens pos)" tokens] by arith
  subgoal for tokens pos using skipWhitespace_ge[of pos tokens] by arith
  subgoal for sel tokens pos a b using skipWhitespace_ge[of pos tokens] by arith
  subgoal for tokens pos b using skipWhitespace_ge[of b tokens] by arith
  subgoal for sel tokens pos a b using skipWhitespace_ge[of b tokens] by arith
  done

declare consumeFunctionArguments.simps [simp del]
declare consumeFunctionArguments_loop.simps [simp del]
declare consumeArgument.simps [simp del]
declare consumeComplexSelector.simps [simp del]
declare consumeComplexSelector_loop.simps [simp del]
declare consumeSimpleSelector.simps [simp del]
declare consumeSimpleSelector_loop.simps [simp del]

section \<open>parseCSS\<close>

text \<open>
  The token kinds \<^verbatim>\<open>parseCSS\<close> rejects before it parses.
\<close>

definition unsupported :: "'n token \<Rightarrow> bool" where
  "unsupported token =
     (is_AtKeywordToken token \<or> is_BadStringToken token \<or> is_BadURLToken token \<or>
      is_ColumnToken token \<or> is_CDOToken token \<or> is_CDCToken token \<or>
      is_SemicolonToken token \<or> is_OpenCurlyToken token \<or> is_CloseCurlyToken token \<or>
      is_URLToken token \<or> is_PercentageToken token)"

text \<open>
  \<^verbatim>\<open>if (!(tokens[tokens.length - 1] instanceof css.EOFToken)) tokens.push(new css.EOFToken());\<close>
  The appended end marker is lexed from no text: its source is empty.
\<close>

definition withEOF :: "'n token list \<Rightarrow> 'n token list" where
  "withEOF tokens =
     (if tokens \<noteq> [] \<and> is_EOFToken (last tokens) then tokens else tokens @ [EOFToken []])"

definition whileParsing :: "string \<Rightarrow> string" where
  "whileParsing sel = '' while parsing selector '' @ dq @ sel @ dq"

text \<open>
  The tokenizer \<^verbatim>\<open>css.tokenize\<close> is the parameter \<open>tokenize\<close>: it returns the tokens, or
  throws an exception with a message (\<open>Inl\<close>), which \<^verbatim>\<open>parseCSS\<close> extends and rethrows.
\<close>

definition parseCSS ::
  "(string \<Rightarrow> string + 'n token list) \<Rightarrow> string \<Rightarrow> error + 'n CSSComplexSelector list" where
  "parseCSS tokenize sel =
     (case tokenize sel of
        Inl message \<Rightarrow> Inl (Error (message @ whileParsing sel))
      | Inr tokens0 \<Rightarrow>
          let tokens = withEOF tokens0 in
          (case find unsupported tokens of
             Some unsupportedToken \<Rightarrow>
               Inl (Error (''Unsupported token '' @ dq @ toSource unsupportedToken @ dq @
                           whileParsing sel))
           | None \<Rightarrow>
               (case consumeFunctionArguments sel tokens 0 of
                  Inl e \<Rightarrow> Inl e
                | Inr (result, pos) \<Rightarrow>
                    if \<not> isEOF tokens pos then
                      Inl (Error (''Error'' @ whileParsing sel))
                    else if list_ex (\<lambda>arg. \<not> is_ArgSelector arg) result then
                      Inl (Error (''Error'' @ whileParsing sel))
                    else Inr (map complexSelector result))))"

section \<open>serializeSelector\<close>

fun join :: "'a list \<Rightarrow> 'a list list \<Rightarrow> 'a list" where
  "join sep [] = []"
| "join sep [x] = x"
| "join sep (x # y # ys) = x @ sep @ join sep (y # ys)"

text \<open>
  \<^verbatim>\<open>String(arg)\<close> of a number is the parameter \<open>numToString\<close>.
\<close>

fun serializeSelector :: "('n \<Rightarrow> string) \<Rightarrow> 'n CSSFunctionArgument list \<Rightarrow> string"
  and serializeArgument :: "('n \<Rightarrow> string) \<Rightarrow> 'n CSSFunctionArgument \<Rightarrow> string"
  and serializeClause :: "('n \<Rightarrow> string) \<Rightarrow> 'n CSSClause \<Rightarrow> string"
  and serializeFunction :: "('n \<Rightarrow> string) \<Rightarrow> 'n CSSFunction \<Rightarrow> string"
where
  "serializeSelector numToString as = join '', '' (map (serializeArgument numToString) as)"
| "serializeArgument numToString (ArgString s) = dq @ s @ dq"
| "serializeArgument numToString (ArgNumber n) = numToString n"
| "serializeArgument numToString (ArgSelector (CSSComplexSelector clauses)) =
     join '' '' (map (serializeClause numToString) clauses)"
| "serializeClause numToString (CSSClause (CSSSimpleSelector c fs) comb) =
     (let s = (case c of None \<Rightarrow> [] | Some raw \<Rightarrow> raw);
          s1 = s @ join [] (map (serializeFunction numToString) fs)
      in if comb \<noteq> [] then s1 @ '' '' @ comb else s1)"
| "serializeFunction numToString (CSSFunction nm as) =
     '':'' @ nm @ ''('' @ serializeSelector numToString as @ '')''"

section \<open>Example inputs\<close>

text \<open>
  A tokenizer that returns the given tokens for every string: the examples fix the token
  sequence of the selector they parse.
\<close>

definition tokenizeTo :: "nat token list \<Rightarrow> string \<Rightarrow> string + nat token list" where
  "tokenizeTo tokens sel = Inr tokens"

lemma tokenizeTo_Inr: "tokenizeTo tokens sel = Inr tokens"
  by (simp add: tokenizeTo_def)

section \<open>Facts about the token tests and the whitespace loop\<close>

lemmas is_defs = isWhitespace_def isIdent_def isString_def isNumber_def isComma_def
  isCloseParen_def isDelim_def isStar_def isEOF_def isClauseCombinator_def isHash_def
  isColon_def isFunction_def isOpenSquare_def isCloseSquare_def isSelectorClauseEnd_def

lemma isColon_excl:
  assumes "isColon tokens p"
  shows "\<not> isSelectorClauseEnd tokens p" "\<not> isIdent tokens p" "\<not> isStar tokens p"
    "\<not> isHash tokens p" "\<not> isDelim v tokens p"
  using assms by (auto simp: is_defs split: option.splits)

lemma isIdent_excl:
  assumes "isIdent tokens p"
  shows "\<not> isFunction tokens p" "\<not> isSelectorClauseEnd tokens p"
  using assms by (auto simp: is_defs split: option.splits)

lemma isFunction_excl:
  assumes "isFunction tokens p"
  shows "\<not> isIdent tokens p"
  using assms by (auto simp: is_defs split: option.splits)

lemma isCloseParen_excl:
  assumes "isCloseParen tokens p"
  shows "\<not> isWhitespace tokens p" "\<not> isNumber tokens p" "\<not> isString tokens p"
    "isSelectorClauseEnd tokens p" "\<not> isComma tokens p" "\<not> isClauseCombinator tokens p"
  using assms by (auto simp: is_defs split: option.splits)

lemma skipWhitespace_id: "\<not> isWhitespace tokens p \<Longrightarrow> skipWhitespace tokens p = p"
  by (subst skipWhitespace.simps) simp

lemma skipWhitespace_not_ws: "\<not> isWhitespace tokens (skipWhitespace tokens p)"
  by (induction tokens p rule: skipWhitespace.induct) (subst skipWhitespace.simps, simp)

lemma skipWhitespace_idem:
  "skipWhitespace tokens (skipWhitespace tokens p) = skipWhitespace tokens p"
  by (simp add: skipWhitespace_id skipWhitespace_not_ws)

lemma simple_at_end:
  "isSelectorClauseEnd tokens p \<Longrightarrow>
     consumeSimpleSelector sel tokens p = Inl (unexpected sel tokens p)"
  by (simp add: consumeSimpleSelector.simps consumeSimpleSelector_loop.simps)

lemma argument_at_close:
  assumes "isCloseParen tokens (skipWhitespace tokens p)"
  shows "consumeArgument sel tokens p = Inl (unexpected sel tokens (skipWhitespace tokens p))"
  using assms isCloseParen_excl[OF assms]
  by (simp add: consumeArgument.simps consumeComplexSelector.simps Let_def
      skipWhitespace_idem simple_at_end)

section \<open>Well-formed results\<close>

text \<open>
  The shape every parsed tree has, at every depth: a complex selector has at least one
  clause and the combinator of its last clause is empty; a simple selector has raw CSS
  or a function, and its raw CSS, when present, is not the empty string.
\<close>

fun okArgument :: "'n CSSFunctionArgument \<Rightarrow> bool"
  and okFunction :: "'n CSSFunction \<Rightarrow> bool"
  and okSimple :: "'n CSSSimpleSelector \<Rightarrow> bool"
  and okClause :: "'n CSSClause \<Rightarrow> bool"
  and okComplex :: "'n CSSComplexSelector \<Rightarrow> bool"
where
  "okArgument (ArgSelector c) = okComplex c"
| "okArgument (ArgNumber n) = True"
| "okArgument (ArgString s) = True"
| "okFunction (CSSFunction nm as) = list_all okArgument as"
| "okSimple (CSSSimpleSelector c fs) =
     ((c \<noteq> None \<or> fs \<noteq> []) \<and> c \<noteq> Some [] \<and> list_all okFunction fs)"
| "okClause (CSSClause s comb) = okSimple s"
| "okComplex (CSSComplexSelector clauses) =
     (clauses \<noteq> [] \<and> combinator (last clauses) = [] \<and> list_all okClause clauses)"

lemma parser_wf:
  shows "\<forall>r p. consumeFunctionArguments sel tokens pos = Inr (r, p) \<longrightarrow> list_all okArgument r"
    and "\<forall>r p. list_all okArgument result \<longrightarrow>
           consumeFunctionArguments_loop sel tokens pos result = Inr (r, p) \<longrightarrow>
           list_all okArgument r"
    and "\<forall>r p. consumeArgument sel tokens pos = Inr (r, p) \<longrightarrow> okArgument r"
    and "\<forall>r p. consumeComplexSelector sel tokens pos = Inr (r, p) \<longrightarrow> okComplex r"
    and "\<forall>r p. okComplex (CSSComplexSelector clauses) \<longrightarrow>
           consumeComplexSelector_loop sel tokens pos clauses = Inr (r, p) \<longrightarrow> okComplex r"
    and "\<forall>r p. consumeSimpleSelector sel tokens pos = Inr (r, p) \<longrightarrow> okSimple r"
    and "\<forall>r p. list_all okFunction fs \<longrightarrow>
           consumeSimpleSelector_loop sel tokens pos rawCSSString fs = Inr (r, p) \<longrightarrow>
           okSimple r"
proof (induct rule: consumeFunctionArguments_consumeFunctionArguments_loop_consumeArgument_consumeComplexSelector_consumeComplexSelector_loop_consumeSimpleSelector_consumeSimpleSelector_loop.induct)
  case (1 sel tokens pos)
  show ?case
  proof (intro allI impI)
    fix r p
    assume res: "consumeFunctionArguments sel tokens pos = Inr (r, p)"
    then obtain a pos1
      where a: "consumeArgument sel tokens pos = Inr (a, pos1)"
        and l: "consumeFunctionArguments_loop sel tokens pos1 [a] = Inr (r, p)"
      by (auto simp: consumeFunctionArguments.simps split: sum.splits)
    from 1(1) a have "okArgument a" by simp
    with 1(2) a l show "list_all okArgument r" by simp
  qed
next
  case (2 sel tokens pos result)
  show ?case
  proof (intro allI impI)
    fix r p
    assume ok: "list_all okArgument result"
      and res: "consumeFunctionArguments_loop sel tokens pos result = Inr (r, p)"
    let ?p1 = "skipWhitespace tokens pos"
    show "list_all okArgument r"
    proof (cases "isComma tokens ?p1")
      case False
      with res ok show ?thesis
        by (simp add: consumeFunctionArguments_loop.simps Let_def)
    next
      case True
      with res obtain a pos2
        where a: "consumeArgument sel tokens (?p1 + 1) = Inr (a, pos2)"
          and l: "consumeFunctionArguments_loop sel tokens pos2 (result @ [a]) = Inr (r, p)"
        by (auto simp: consumeFunctionArguments_loop.simps Let_def split: sum.splits)
      from 2(1) True a have "okArgument a" by simp
      with 2(2) True a l ok show ?thesis by simp
    qed
  qed
next
  case (3 sel tokens pos)
  show ?case
  proof (intro allI impI)
    fix r p
    assume res: "consumeArgument sel tokens pos = Inr (r, p)"
    let ?p1 = "skipWhitespace tokens pos"
    show "okArgument r"
    proof (cases "isNumber tokens ?p1 \<or> isString tokens ?p1")
      case True
      with res show ?thesis
        by (auto simp: consumeArgument.simps Let_def split: if_splits)
    next
      case False
      with res obtain c
        where c: "consumeComplexSelector sel tokens ?p1 = Inr (c, p)" and r: "r = ArgSelector c"
        by (auto simp: consumeArgument.simps Let_def split: sum.splits)
      from 3 False c have "okComplex c" by simp
      with r show ?thesis by simp
    qed
  qed
next
  case (4 sel tokens pos)
  show ?case
  proof (intro allI impI)
    fix r p
    assume res: "consumeComplexSelector sel tokens pos = Inr (r, p)"
    let ?p1 = "skipWhitespace tokens pos"
    from res obtain s pos2
      where a: "consumeSimpleSelector sel tokens ?p1 = Inr (s, pos2)"
        and l: "consumeComplexSelector_loop sel tokens pos2 [CSSClause s []] = Inr (r, p)"
      by (auto simp: consumeComplexSelector.simps Let_def split: sum.splits)
    from 4(1) a have "okSimple s" by simp
    with 4(2) a l show "okComplex r" by simp
  qed
next
  case (5 sel tokens pos result)
  show ?case
  proof (intro allI impI)
    fix r p
    assume ok: "okComplex (CSSComplexSelector result)"
      and res: "consumeComplexSelector_loop sel tokens pos result = Inr (r, p)"
    let ?p1 = "skipWhitespace tokens pos"
    let ?p2 = "skipWhitespace tokens (?p1 + 1)"
    from ok have ne: "result \<noteq> []" and all: "list_all okClause result" by simp_all
    show "okComplex r"
    proof (cases "isClauseCombinator tokens ?p1")
      case True
      let ?r1 = "result[length result - 1 :=
                     CSSClause (selector (last result)) (val (tokens ! ?p1))]"
      from True res ne obtain s pos3
        where a: "consumeSimpleSelector sel tokens ?p2 = Inr (s, pos3)"
          and l: "consumeComplexSelector_loop sel tokens pos3 (?r1 @ [CSSClause s []]) = Inr (r, p)"
        by (auto simp: consumeComplexSelector_loop.simps Let_def split: sum.splits)
      from 5(1) True ne a have s: "okSimple s" by simp
      from all ne have "okClause (last result)"
        by (simp add: list_all_iff)
      then have "okClause (CSSClause (selector (last result)) (val (tokens ! ?p1)))"
        by (cases "last result") simp
      with all have "list_all okClause ?r1"
        by (auto simp: list_all_iff dest!: set_update_subset_insert[THEN subsetD])
      with s have "okComplex (CSSComplexSelector (?r1 @ [CSSClause s []]))" by simp
      with 5(2) True ne a l show ?thesis by simp
    next
      case False
      show ?thesis
      proof (cases "isSelectorClauseEnd tokens ?p1")
        case True
        with False res ok show ?thesis
          by (auto simp: consumeComplexSelector_loop.simps Let_def)
      next
        case nend: False
        with False res obtain s pos3
          where a: "consumeSimpleSelector sel tokens ?p1 = Inr (s, pos3)"
            and l: "consumeComplexSelector_loop sel tokens pos3 (result @ [CSSClause s []]) = Inr (r, p)"
          by (auto simp: consumeComplexSelector_loop.simps Let_def split: sum.splits)
        from 5(3) False nend a have "okSimple s" by simp
        with all have "okComplex (CSSComplexSelector (result @ [CSSClause s []]))" by simp
        with 5(4) False nend a l show ?thesis by simp
      qed
    qed
  qed
next
  case (6 sel tokens pos)
  then show ?case
    by (simp add: consumeSimpleSelector.simps)
next
  case (7 sel tokens pos rawCSSString fs)
  note eq = consumeSimpleSelector_loop.simps[of sel tokens pos rawCSSString fs]
  show ?case
  proof (intro allI impI)
    fix r p
    assume ok: "list_all okFunction fs"
      and res: "consumeSimpleSelector_loop sel tokens pos rawCSSString fs = Inr (r, p)"
    show "okSimple r"
    proof (cases "isSelectorClauseEnd tokens pos")
      case True
      with res eq ok show ?thesis by (auto split: if_splits)
    next
      case nend: False
      show ?thesis
      proof (cases "isIdent tokens pos \<or> isStar tokens pos")
        case True
        with res eq nend
        have "consumeSimpleSelector_loop sel tokens (pos + 1)
                (rawCSSString @ toSource (tokens ! pos)) fs = Inr (r, p)"
          by simp
        with 7(1) nend True ok show ?thesis by simp
      next
        case b1: False
        show ?thesis
        proof (cases "isHash tokens pos")
          case True
          with res eq nend b1
          have "consumeSimpleSelector_loop sel tokens (pos + 1)
                  (rawCSSString @ toSource (tokens ! pos)) fs = Inr (r, p)"
            by simp
          with 7(2) nend b1 True ok show ?thesis by simp
        next
          case b2: False
          show ?thesis
          proof (cases "isDelim ''.'' tokens pos")
            case True
            with res eq nend b1 b2
            have id: "isIdent tokens (pos + 1)"
              and "consumeSimpleSelector_loop sel tokens (pos + 2)
                    (rawCSSString @ ''.'' @ toSource (tokens ! (pos + 1))) fs = Inr (r, p)"
              by (simp_all split: if_splits)
            with 7(3) nend b1 b2 True ok show ?thesis by simp
          next
            case b3: False
            show ?thesis
            proof (cases "isColon tokens pos")
              case True
              show ?thesis
              proof (cases "isIdent tokens (pos + 1)")
                case id: True
                show ?thesis
                proof (cases "val (tokens ! (pos + 1)) \<in> set builtinCSSFilters")
                  case f: True
                  with res eq nend b1 b2 b3 True id
                  have "consumeSimpleSelector_loop sel tokens (pos + 2)
                          (rawCSSString @ '':'' @ toSource (tokens ! (pos + 1))) fs = Inr (r, p)"
                    by simp
                  with 7(4) nend b1 b2 b3 True id f ok show ?thesis by simp
                next
                  case f: False
                  with res eq nend b1 b2 b3 True id
                  have "consumeSimpleSelector_loop sel tokens (pos + 2) rawCSSString
                          (fs @ [CSSFunction (val (tokens ! (pos + 1))) []]) = Inr (r, p)"
                    by simp
                  with 7(5) nend b1 b2 b3 True id f ok show ?thesis by simp
                qed
              next
                case id: False
                with res eq nend b1 b2 b3 True
                have fn: "isFunction tokens (pos + 1)" by (simp split: if_splits)
                show ?thesis
                proof (cases "val (tokens ! (pos + 1)) \<in> set builtinCSSFunctions")
                  case f: True
                  with res eq nend b1 b2 b3 True id fn
                  obtain s pos1
                    where b: "consumeBuiltinFunctionArguments tokens (pos + 2) = Inr (s, pos1)"
                      and cp: "isCloseParen tokens (skipWhitespace tokens pos1)"
                      and l: "consumeSimpleSelector_loop sel tokens (skipWhitespace tokens pos1 + 1)
                                (rawCSSString @ '':'' @ val (tokens ! (pos + 1)) @ ''('' @ s @ '')'') fs
                              = Inr (r, p)"
                    by (auto simp: Let_def split: sum.splits if_splits)
                  from 7(6) nend b1 b2 b3 True id fn f b cp l ok
                  show ?thesis by simp
                next
                  case f: False
                  with res eq nend b1 b2 b3 True id fn
                  obtain as pos1
                    where b: "consumeFunctionArguments sel tokens (pos + 2) = Inr (as, pos1)"
                      and cp: "isCloseParen tokens (skipWhitespace tokens pos1)"
                      and l: "consumeSimpleSelector_loop sel tokens (skipWhitespace tokens pos1 + 1)
                                rawCSSString (fs @ [CSSFunction (val (tokens ! (pos + 1))) as])
                              = Inr (r, p)"
                    by (auto simp: Let_def split: sum.splits if_splits)
                  from 7(7) nend b1 b2 b3 True id fn f b
                  have "list_all okArgument as" by simp
                  with 7(8) nend b1 b2 b3 True id fn f b cp l ok
                  show ?thesis by simp
                qed
              qed
            next
              case b4: False
              with res eq nend b1 b2 b3
              have sq: "isOpenSquare tokens pos" by (simp split: if_splits)
              with res eq nend b1 b2 b3 b4
              obtain s pos1
                where b: "consumeSquare_loop tokens (pos + 1) (rawCSSString @ ''['') = Inr (s, pos1)"
                  and cs: "isCloseSquare tokens pos1"
                  and l: "consumeSimpleSelector_loop sel tokens (pos1 + 1) (s @ '']'') fs = Inr (r, p)"
                by (auto simp: Let_def split: sum.splits if_splits)
              from 7(9) nend b1 b2 b3 b4 sq b cs l ok show ?thesis by simp
            qed
          qed
        qed
      qed
    qed
  qed
qed

section \<open>What a successful parse went through\<close>

lemma parseCSS_Inr:
  assumes ok: "parseCSS tokenize sel = Inr r"
  shows "\<exists>tokens0 result pos.
         tokenize sel = Inr tokens0 \<and> find unsupported (withEOF tokens0) = None \<and>
         consumeFunctionArguments sel (withEOF tokens0) 0 = Inr (result, pos) \<and>
         isEOF (withEOF tokens0) pos \<and> list_all is_ArgSelector result \<and>
         r = map complexSelector result"
proof -
  from ok obtain tokens0 where t: "tokenize sel = Inr tokens0"
    by (cases "tokenize sel") (simp_all add: parseCSS_def)
  with ok have u: "find unsupported (withEOF tokens0) = None"
    by (cases "find unsupported (withEOF tokens0)") (simp_all add: parseCSS_def)
  from ok t u obtain result pos
    where c: "consumeFunctionArguments sel (withEOF tokens0) 0 = Inr (result, pos)"
    by (cases "consumeFunctionArguments sel (withEOF tokens0) 0")
       (auto simp: parseCSS_def)
  from ok t u c have e: "isEOF (withEOF tokens0) pos"
    by (simp add: parseCSS_def split: if_splits)
  from ok t u c e have a: "list_all is_ArgSelector result"
    by (simp add: parseCSS_def list_ex_iff list_all_iff split: if_splits)
  from ok t u c e a have "r = map complexSelector result"
    by (simp add: parseCSS_def list_ex_iff list_all_iff split: if_splits)
  with t u c e a show ?thesis
    by blast
qed

section \<open>The cursor stays inside the token sequence\<close>


definition advances :: "bool \<Rightarrow> 'n token list \<Rightarrow> nat \<Rightarrow> error + ('a \<times> nat) \<Rightarrow> bool" where
  "advances strict tokens pos res =
     (case res of
        Inl e \<Rightarrow> e \<noteq> TypeError
      | Inr (r, p) \<Rightarrow> (if strict then pos < p else pos \<le> p) \<and> p < length tokens)"

lemma advances_Inl [simp]: "advances s tokens pos (Inl e) = (e \<noteq> TypeError)"
  by (simp add: advances_def)

lemma advances_Inr [simp]:
  "advances s tokens pos (Inr (r, p)) = ((if s then pos < p else pos \<le> p) \<and> p < length tokens)"
  by (simp add: advances_def)












section \<open>Where the copy loops stop\<close>

text \<open>
  Both loops copy the sources of the tokens from the cursor up to the first token that
  is their closer or the end of input, and leave the cursor on that token.
\<close>

lemma consumeBuiltinFunctionArguments_loop_run:
  assumes "p \<le> j" and "j < length tokens"
    and "\<forall>i. p \<le> i \<and> i < j \<longrightarrow> \<not> isCloseParen tokens i \<and> \<not> isEOF tokens i"
    and "isCloseParen tokens j \<or> isEOF tokens j"
  shows "consumeBuiltinFunctionArguments_loop tokens p s =
           Inr (s @ concat (map toSource (take (j - p) (drop p tokens))), j)"
  using assms
proof (induction "j - p" arbitrary: p s)
  case 0
  then have "p = j" by simp
  with 0 show ?case
    by (subst consumeBuiltinFunctionArguments_loop.simps) auto
next
  case (Suc n)
  then have lt: "p < j" and n: "n = j - (p + 1)" by simp_all
  with Suc.prems have here: "\<not> isCloseParen tokens p" "\<not> isEOF tokens p" "p < length tokens"
    by auto
  have ih: "consumeBuiltinFunctionArguments_loop tokens (p + 1) (s @ toSource (tokens ! p)) =
      Inr ((s @ toSource (tokens ! p)) @
           concat (map toSource (take (j - (p + 1)) (drop (p + 1) tokens))), j)"
    using Suc.prems lt by (intro Suc.hyps(1)[OF n]) auto
  have d: "drop p tokens = tokens ! p # drop (p + 1) tokens"
    using here(3) by (simp add: Cons_nth_drop_Suc)
  have k: "j - p = Suc (j - (p + 1))"
    using lt by simp
  have "take (j - p) (drop p tokens) = tokens ! p # take (j - (p + 1)) (drop (p + 1) tokens)"
    by (simp only: d k take_Suc_Cons)
  with ih here show ?case
    by (subst consumeBuiltinFunctionArguments_loop.simps) (simp add: tokAt_def)
qed





section \<open>C2: the top-level success condition\<close>

definition ex_number :: "nat token list" where
  "ex_number = [NumberToken ''5'' 5]"

definition ex_trailing :: "nat token list" where
  "ex_trailing = [IdentToken ''div'' ''div'', CloseParenToken '')'']"

definition ex_div :: "nat token list" where
  "ex_div = [IdentToken ''div'' ''div'']"

text \<open>
  C2. \<^verbatim>\<open>parseCSS\<close> returns a selector list only if the tokenizer returned tokens, none of
  them of a rejected kind, the outermost argument list was consumed with the cursor left
  on an end-of-input token, and every argument is a complex selector; the result is
  these selectors. When the outermost argument list is consumed and the cursor is not on
  an end-of-input token, or an argument is a number or a string, the result is the error
  \<^verbatim>\<open>Error while parsing selector "<selector>"\<close>.
\<close>

theorem parseCSS_success_condition:
  "(parseCSS tokenize sel = Inr r \<longrightarrow>
      (\<exists>tokens0 result pos.
         tokenize sel = Inr tokens0 \<and> find unsupported (withEOF tokens0) = None \<and>
         consumeFunctionArguments sel (withEOF tokens0) 0 = Inr (result, pos) \<and>
         isEOF (withEOF tokens0) pos \<and> list_all is_ArgSelector result \<and>
         r = map complexSelector result)) \<and>
   (tokenize sel = Inr tokens0 \<and> find unsupported (withEOF tokens0) = None \<and>
    consumeFunctionArguments sel (withEOF tokens0) 0 = Inr (result, pos) \<and>
    (\<not> isEOF (withEOF tokens0) pos \<or> list_ex (\<lambda>arg. \<not> is_ArgSelector arg) result) \<longrightarrow>
      parseCSS tokenize sel =
        Inl (Error (''Error while parsing selector '' @ dq @ sel @ dq)))"
proof (intro conjI impI)
  assume "parseCSS tokenize sel = Inr r"
  then show "\<exists>tokens0 result pos.
         tokenize sel = Inr tokens0 \<and> find unsupported (withEOF tokens0) = None \<and>
         consumeFunctionArguments sel (withEOF tokens0) 0 = Inr (result, pos) \<and>
         isEOF (withEOF tokens0) pos \<and> list_all is_ArgSelector result \<and>
         r = map complexSelector result"
    by (rule parseCSS_Inr)
next
  assume "tokenize sel = Inr tokens0 \<and> find unsupported (withEOF tokens0) = None \<and>
    consumeFunctionArguments sel (withEOF tokens0) 0 = Inr (result, pos) \<and>
    (\<not> isEOF (withEOF tokens0) pos \<or> list_ex (\<lambda>arg. \<not> is_ArgSelector arg) result)"
  then show "parseCSS tokenize sel =
        Inl (Error (''Error while parsing selector '' @ dq @ sel @ dq))"
    by (auto simp: parseCSS_def whileParsing_def)
qed

theorem parseCSS_success_condition_witness:
  "parseCSS (tokenizeTo ex_div) ''div'' =
     Inr [CSSComplexSelector [CSSClause (CSSSimpleSelector (Some ''div'') []) []]] \<and>
   (\<exists>tokens0 result pos.
      tokenizeTo ex_div ''div'' = Inr tokens0 \<and> find unsupported (withEOF tokens0) = None \<and>
      consumeFunctionArguments ''div'' (withEOF tokens0) 0 = Inr (result, pos) \<and>
      isEOF (withEOF tokens0) pos \<and> list_all is_ArgSelector result \<and>
      [CSSComplexSelector [CSSClause (CSSSimpleSelector (Some ''div'') []) []]] =
        map complexSelector result) \<and>
   consumeFunctionArguments ''5'' (withEOF ex_number) 0 = Inr ([ArgNumber 5], 1) \<and>
   list_ex (\<lambda>arg. \<not> is_ArgSelector arg) [ArgNumber (5::nat)] \<and>
   parseCSS (tokenizeTo ex_number) ''5'' =
     Inl (Error (''Error while parsing selector '' @ dq @ ''5'' @ dq)) \<and>
   consumeFunctionArguments ''div)'' (withEOF ex_trailing) 0 =
     Inr ([ArgSelector (CSSComplexSelector
             [CSSClause (CSSSimpleSelector (Some ''div'') []) []])], 1) \<and>
   \<not> isEOF (withEOF ex_trailing) 1 \<and>
   parseCSS (tokenizeTo ex_trailing) ''div)'' =
     Inl (Error (''Error while parsing selector '' @ dq @ ''div)'' @ dq))"
proof -
  have s: "parseCSS (tokenizeTo ex_div) ''div'' =
     Inr [CSSComplexSelector [CSSClause (CSSSimpleSelector (Some ''div'') []) []]]"
    by code_simp
  have n1: "consumeFunctionArguments ''5'' (withEOF ex_number) 0 = Inr ([ArgNumber 5], 1)"
    by code_simp
  have n2: "find unsupported (withEOF ex_number) = None"
    by code_simp
  have n3: "list_ex (\<lambda>arg. \<not> is_ArgSelector arg) [ArgNumber (5::nat)]"
    by simp
  have t1: "consumeFunctionArguments ''div)'' (withEOF ex_trailing) 0 =
     Inr ([ArgSelector (CSSComplexSelector
             [CSSClause (CSSSimpleSelector (Some ''div'') []) []])], 1)"
    by code_simp
  have t2: "find unsupported (withEOF ex_trailing) = None"
    by code_simp
  have t3: "\<not> isEOF (withEOF ex_trailing) 1"
    by code_simp
  note a = parseCSS_success_condition[of "tokenizeTo ex_div" "''div''" _ ex_div "[]" 0,
      THEN conjunct1, rule_format, OF s]
  have pb: "tokenizeTo ex_number ''5'' = Inr ex_number \<and>
      find unsupported (withEOF ex_number) = None \<and>
      consumeFunctionArguments ''5'' (withEOF ex_number) 0 = Inr ([ArgNumber 5], 1) \<and>
      (\<not> isEOF (withEOF ex_number) 1 \<or>
       list_ex (\<lambda>arg. \<not> is_ArgSelector arg) [ArgNumber (5::nat)])"
    by (intro conjI disjI2 tokenizeTo_Inr n1 n2 n3)
  note b = parseCSS_success_condition[of "tokenizeTo ex_number" "''5''" "[]" ex_number
      "[ArgNumber 5]" 1, THEN conjunct2, rule_format, OF pb]
  have pc: "tokenizeTo ex_trailing ''div)'' = Inr ex_trailing \<and>
      find unsupported (withEOF ex_trailing) = None \<and>
      consumeFunctionArguments ''div)'' (withEOF ex_trailing) 0 =
        Inr ([ArgSelector (CSSComplexSelector
               [CSSClause (CSSSimpleSelector (Some ''div'') []) []])], 1) \<and>
      (\<not> isEOF (withEOF ex_trailing) 1 \<or>
       list_ex (\<lambda>arg. \<not> is_ArgSelector arg)
         [ArgSelector (CSSComplexSelector
            [CSSClause (CSSSimpleSelector (Some ''div'') []) []])])"
    by (intro conjI disjI1 tokenizeTo_Inr t1 t2 t3)
  note c = parseCSS_success_condition[of "tokenizeTo ex_trailing" "''div)''" "[]" ex_trailing
      _ 1, THEN conjunct2, rule_format, OF pc]
  show ?thesis
    by (intro conjI s a n1 n3 b t1 t3 c)
qed

section \<open>C3: built-in pseudo-functions\<close>

definition ex_nth_child :: "nat token list" where
  "ex_nth_child =
     [ColonToken '':'', FunctionToken ''nth-child('' ''nth-child'', OtherToken ''2n'',
      NumberToken ''+1'' 1, CloseParenToken '')'']"

definition ex_nth_child_of :: "nat token list" where
  "ex_nth_child_of =
     [ColonToken '':'', FunctionToken ''nth-child('' ''nth-child'', IdentToken ''n'' ''n'',
      WhitespaceToken '' '', IdentToken ''of'' ''of'', WhitespaceToken '' '',
      ColonToken '':'', FunctionToken ''not('' ''not'', IdentToken ''a'' ''a'',
      CloseParenToken '')'', CloseParenToken '')'']"

text \<open>
  C3 as amended. After a colon and a function token whose name is a built-in
  pseudo-function, the sources of the tokens up to the first close-parenthesis token
  are concatenated and \<open>:name(\<close>, that text and \<open>)\<close> are appended to the raw CSS of the
  simple selector; the function list is unchanged, and parsing goes on after that
  parenthesis. Nested parentheses are not matched. \<^verbatim>\<open>:nth-child(2n+1)\<close> parses to one
  simple selector with the raw CSS \<^verbatim>\<open>:nth-child(2n+1)\<close> and no function.
\<close>

theorem builtin_function_captured_verbatim:
  "(isColon tokens pos \<and> isFunction tokens (pos + 1) \<and>
    val (tokens ! (pos + 1)) \<in> set builtinCSSFunctions \<and>
    pos + 2 \<le> j \<and> j < length tokens \<and> isCloseParen tokens j \<and>
    (\<forall>i. pos + 2 \<le> i \<and> i < j \<longrightarrow> \<not> isCloseParen tokens i \<and> \<not> isEOF tokens i) \<longrightarrow>
      consumeSimpleSelector_loop sel tokens pos rawCSSString fs =
        consumeSimpleSelector_loop sel tokens (j + 1)
          (rawCSSString @ '':'' @ val (tokens ! (pos + 1)) @ ''('' @
           concat (map toSource (take (j - (pos + 2)) (drop (pos + 2) tokens))) @ '')'')
          fs) \<and>
   parseCSS (tokenizeTo ex_nth_child) '':nth-child(2n+1)'' =
     Inr [CSSComplexSelector
            [CSSClause (CSSSimpleSelector (Some '':nth-child(2n+1)'') []) []]]"
proof (intro conjI impI)
  assume a: "isColon tokens pos \<and> isFunction tokens (pos + 1) \<and>
    val (tokens ! (pos + 1)) \<in> set builtinCSSFunctions \<and>
    pos + 2 \<le> j \<and> j < length tokens \<and> isCloseParen tokens j \<and>
    (\<forall>i. pos + 2 \<le> i \<and> i < j \<longrightarrow> \<not> isCloseParen tokens i \<and> \<not> isEOF tokens i)"
  then have b: "consumeBuiltinFunctionArguments tokens (pos + 2) =
      Inr (concat (map toSource (take (j - (pos + 2)) (drop (pos + 2) tokens))), j)"
    unfolding consumeBuiltinFunctionArguments_def
    by (subst consumeBuiltinFunctionArguments_loop_run[where j = j]) auto
  from a have sw: "skipWhitespace tokens j = j"
    by (simp add: skipWhitespace_id isCloseParen_excl)
  from a show "consumeSimpleSelector_loop sel tokens pos rawCSSString fs =
        consumeSimpleSelector_loop sel tokens (j + 1)
          (rawCSSString @ '':'' @ val (tokens ! (pos + 1)) @ ''('' @
           concat (map toSource (take (j - (pos + 2)) (drop (pos + 2) tokens))) @ '')'')
          fs"
    using isColon_excl[of tokens pos] isFunction_excl[of tokens "pos + 1"]
    by (subst consumeSimpleSelector_loop.simps) (simp add: Let_def b[simplified] sw)
next
  show "parseCSS (tokenizeTo ex_nth_child) '':nth-child(2n+1)'' =
     Inr [CSSComplexSelector
            [CSSClause (CSSSimpleSelector (Some '':nth-child(2n+1)'') []) []]]"
    by code_simp
qed

theorem builtin_function_captured_verbatim_witness:
  "(isColon (withEOF ex_nth_child_of) 0 \<and> isFunction (withEOF ex_nth_child_of) (0 + 1) \<and>
    val (withEOF ex_nth_child_of ! (0 + 1)) \<in> set builtinCSSFunctions \<and>
    0 + 2 \<le> (9::nat) \<and> 9 < length (withEOF ex_nth_child_of) \<and>
    isCloseParen (withEOF ex_nth_child_of) 9) \<and>
   list_all (\<lambda>i. \<not> isCloseParen (withEOF ex_nth_child_of) i \<and>
                  \<not> isEOF (withEOF ex_nth_child_of) i) [2, 3, 4, 5, 6, 7, 8] \<and>
   consumeSimpleSelector_loop ''s'' (withEOF ex_nth_child_of) 0 [] [] =
     consumeSimpleSelector_loop ''s'' (withEOF ex_nth_child_of) (9 + 1)
       ([] @ '':'' @ val (withEOF ex_nth_child_of ! (0 + 1)) @ ''('' @
        concat (map toSource (take (9 - (0 + 2)) (drop (0 + 2) (withEOF ex_nth_child_of)))) @
        '')'')
       [] \<and>
   [] @ '':'' @ val (withEOF ex_nth_child_of ! (0 + 1)) @ ''('' @
     concat (map toSource (take (9 - (0 + 2)) (drop (0 + 2) (withEOF ex_nth_child_of)))) @
     '')'' = '':nth-child(n of :not(a)''"
proof -
  have h: "isColon (withEOF ex_nth_child_of) 0 \<and> isFunction (withEOF ex_nth_child_of) (0 + 1) \<and>
    val (withEOF ex_nth_child_of ! (0 + 1)) \<in> set builtinCSSFunctions \<and>
    0 + 2 \<le> (9::nat) \<and> 9 < length (withEOF ex_nth_child_of) \<and>
    isCloseParen (withEOF ex_nth_child_of) 9"
    by code_simp
  have l: "list_all (\<lambda>i. \<not> isCloseParen (withEOF ex_nth_child_of) i \<and>
                  \<not> isEOF (withEOF ex_nth_child_of) i) [2, 3, 4, 5, 6, 7, 8]"
    by code_simp
  have q: "\<forall>i. 0 + 2 \<le> i \<and> i < 9 \<longrightarrow>
      \<not> isCloseParen (withEOF ex_nth_child_of) i \<and> \<not> isEOF (withEOF ex_nth_child_of) i"
  proof (intro allI impI)
    fix i :: nat assume "0 + 2 \<le> i \<and> i < 9"
    then have "i \<in> set [2, 3, 4, 5, 6, 7, 8]" by (simp; arith)
    with l show "\<not> isCloseParen (withEOF ex_nth_child_of) i \<and>
        \<not> isEOF (withEOF ex_nth_child_of) i"
      unfolding list_all_iff by blast
  qed
  have e: "[] @ '':'' @ val (withEOF ex_nth_child_of ! (0 + 1)) @ ''('' @
     concat (map toSource (take (9 - (0 + 2)) (drop (0 + 2) (withEOF ex_nth_child_of)))) @
     '')'' = '':nth-child(n of :not(a)''"
    by code_simp
  have hq: "isColon (withEOF ex_nth_child_of) 0 \<and> isFunction (withEOF ex_nth_child_of) (0 + 1) \<and>
    val (withEOF ex_nth_child_of ! (0 + 1)) \<in> set builtinCSSFunctions \<and>
    0 + 2 \<le> (9::nat) \<and> 9 < length (withEOF ex_nth_child_of) \<and>
    isCloseParen (withEOF ex_nth_child_of) 9 \<and>
    (\<forall>i. 0 + 2 \<le> i \<and> i < 9 \<longrightarrow>
      \<not> isCloseParen (withEOF ex_nth_child_of) i \<and> \<not> isEOF (withEOF ex_nth_child_of) i)"
    using h q by blast
  note c = builtin_function_captured_verbatim
    [of "withEOF ex_nth_child_of" 0 9 "''s''" "[]" "[]", THEN conjunct1, rule_format, OF hq]
  show ?thesis
    by (intro conjI h[THEN conjunct1] h[THEN conjunct2, THEN conjunct1]
        h[THEN conjunct2, THEN conjunct2, THEN conjunct1]
        h[THEN conjunct2, THEN conjunct2, THEN conjunct2, THEN conjunct1]
        h[THEN conjunct2, THEN conjunct2, THEN conjunct2, THEN conjunct2, THEN conjunct1]
        h[THEN conjunct2, THEN conjunct2, THEN conjunct2, THEN conjunct2, THEN conjunct2]
        l c e)
qed

text \<open>
  The claim as stated fails on nested parentheses. In \<^verbatim>\<open>:nth-child(n of :not(a))\<close> the
  parenthesis that matches \<^verbatim>\<open>nth-child(\<close> is the last token, and the text up to it is
  \<^verbatim>\<open>n of :not(a)\<close>. The parser stops at the first close parenthesis: the simple selector
  ends there with the raw CSS \<^verbatim>\<open>:nth-child(n of :not(a)\<close>, and \<^verbatim>\<open>parseCSS\<close> fails on the
  parenthesis left over.
\<close>

theorem builtin_function_matching_paren_counterexample:
  "consumeSimpleSelector '':nth-child(n of :not(a))'' (withEOF ex_nth_child_of) 0 =
     Inr (CSSSimpleSelector (Some '':nth-child(n of :not(a)'') [], 10) \<and>
   consumeSimpleSelector '':nth-child(n of :not(a))'' (withEOF ex_nth_child_of) 0 \<noteq>
     Inr (CSSSimpleSelector (Some '':nth-child(n of :not(a))'') [], 11) \<and>
   parseCSS (tokenizeTo ex_nth_child_of) '':nth-child(n of :not(a))'' =
     Inl (Error (''Error while parsing selector '' @ dq @ '':nth-child(n of :not(a))'' @ dq))"
  by code_simp

section \<open>C4: numbers, strings and selectors as arguments\<close>

definition ex_has_text :: "nat token list" where
  "ex_has_text =
     [ColonToken '':'', FunctionToken ''has-text('' ''has-text'',
      StringToken (dq @ ''foo'' @ dq) ''foo'', CloseParenToken '')'']"

definition ex_nth_match :: "nat token list" where
  "ex_nth_match =
     [ColonToken '':'', FunctionToken ''nth-match('' ''nth-match'', IdentToken ''li'' ''li'',
      CommaToken '','', WhitespaceToken '' '', NumberToken ''2'' 2, CloseParenToken '')'']"

lemma isString_excl:
  assumes "isString tokens p"
  shows "\<not> isNumber tokens p" "\<not> isWhitespace tokens p"
  using assms by (auto simp: is_defs split: option.splits)

lemma custom_function_one_string:
  assumes "isColon tokens pos" and "isFunction tokens (pos + 1)"
    and "val (tokens ! (pos + 1)) \<notin> set builtinCSSFunctions"
    and "isString tokens (pos + 2)" and "isCloseParen tokens (pos + 3)"
  shows "consumeSimpleSelector_loop sel tokens pos rawCSSString fs =
           consumeSimpleSelector_loop sel tokens (pos + 4) rawCSSString
             (fs @ [CSSFunction (val (tokens ! (pos + 1)))
                      [ArgString (val (tokens ! (pos + 2)))]])"
proof -
  have sw2: "skipWhitespace tokens (pos + 2) = pos + 2"
    using assms(4) by (simp add: skipWhitespace_id isString_excl)
  have sw3: "skipWhitespace tokens (pos + 3) = pos + 3"
    using assms(5) by (simp add: skipWhitespace_id isCloseParen_excl)
  have a: "consumeArgument sel tokens (pos + 2) =
             Inr (ArgString (val (tokens ! (pos + 2))), pos + 3)"
    using assms(4) sw2 by (simp add: consumeArgument.simps Let_def isString_excl)
  have l: "consumeFunctionArguments_loop sel tokens (pos + 3)
             [ArgString (val (tokens ! (pos + 2)))] =
           Inr ([ArgString (val (tokens ! (pos + 2)))], pos + 3)"
    using assms(5) sw3
    by (subst consumeFunctionArguments_loop.simps) (simp add: Let_def isCloseParen_excl)
  have f: "consumeFunctionArguments sel tokens (pos + 2) =
             Inr ([ArgString (val (tokens ! (pos + 2)))], pos + 3)"
    using a l by (simp add: consumeFunctionArguments.simps)
  show ?thesis
    using assms(1,2,3,5) isColon_excl[of tokens pos] isFunction_excl[of tokens "pos + 1"]
    by (subst consumeSimpleSelector_loop.simps)
       (simp add: Let_def f[simplified] sw3 add.commute)
qed

text \<open>
  C4. \<^verbatim>\<open>consumeArgument\<close> skips whitespace and looks at one token: a number token is the
  numeric argument, a string token the string argument (each consumes that one token),
  and on any other token the argument is what \<^verbatim>\<open>consumeComplexSelector\<close> returns there,
  error included. So a custom function applied to one quoted string records a string
  argument; \<^verbatim>\<open>:has-text("foo")\<close> parses to the function \<open>has-text\<close> with the argument
  \<open>ArgString foo\<close>.
\<close>

theorem consumeArgument_disambiguation:
  "(isNumber tokens (skipWhitespace tokens pos) \<longrightarrow>
      consumeArgument sel tokens pos =
        Inr (ArgNumber (num (tokens ! skipWhitespace tokens pos)),
             skipWhitespace tokens pos + 1)) \<and>
   (isString tokens (skipWhitespace tokens pos) \<longrightarrow>
      consumeArgument sel tokens pos =
        Inr (ArgString (val (tokens ! skipWhitespace tokens pos)),
             skipWhitespace tokens pos + 1)) \<and>
   (\<not> isNumber tokens (skipWhitespace tokens pos) \<and>
    \<not> isString tokens (skipWhitespace tokens pos) \<longrightarrow>
      consumeArgument sel tokens pos =
        (case consumeComplexSelector sel tokens (skipWhitespace tokens pos) of
           Inl e \<Rightarrow> Inl e
         | Inr (c, p) \<Rightarrow> Inr (ArgSelector c, p))) \<and>
   (isColon tokens pos \<and> isFunction tokens (pos + 1) \<and>
    val (tokens ! (pos + 1)) \<notin> set builtinCSSFunctions \<and>
    isString tokens (pos + 2) \<and> isCloseParen tokens (pos + 3) \<longrightarrow>
      consumeSimpleSelector_loop sel tokens pos rawCSSString fs =
        consumeSimpleSelector_loop sel tokens (pos + 4) rawCSSString
          (fs @ [CSSFunction (val (tokens ! (pos + 1)))
                   [ArgString (val (tokens ! (pos + 2)))]])) \<and>
   parseCSS (tokenizeTo ex_has_text) ('':has-text('' @ dq @ ''foo'' @ dq @ '')'') =
     Inr [CSSComplexSelector
            [CSSClause (CSSSimpleSelector None
                          [CSSFunction ''has-text'' [ArgString ''foo'']]) []]]"
proof (intro conjI impI)
  show "parseCSS (tokenizeTo ex_has_text) ('':has-text('' @ dq @ ''foo'' @ dq @ '')'') =
     Inr [CSSComplexSelector
            [CSSClause (CSSSimpleSelector None
                          [CSSFunction ''has-text'' [ArgString ''foo'']]) []]]"
    by code_simp
qed (simp_all add: consumeArgument.simps Let_def isString_excl custom_function_one_string)

theorem consumeArgument_disambiguation_witness:
  "isNumber (withEOF ex_nth_match) (skipWhitespace (withEOF ex_nth_match) 4) \<and>
   consumeArgument '':nth-match(li, 2)'' (withEOF ex_nth_match) 4 =
     Inr (ArgNumber (num (withEOF ex_nth_match ! skipWhitespace (withEOF ex_nth_match) 4)),
          skipWhitespace (withEOF ex_nth_match) 4 + 1) \<and>
   consumeArgument '':nth-match(li, 2)'' (withEOF ex_nth_match) 4 = Inr (ArgNumber 2, 6) \<and>
   isString (withEOF ex_has_text) (skipWhitespace (withEOF ex_has_text) 2) \<and>
   consumeArgument ''s'' (withEOF ex_has_text) 2 =
     Inr (ArgString (val (withEOF ex_has_text ! skipWhitespace (withEOF ex_has_text) 2)),
          skipWhitespace (withEOF ex_has_text) 2 + 1) \<and>
   consumeArgument ''s'' (withEOF ex_has_text) 2 = Inr (ArgString ''foo'', 3) \<and>
   (\<not> isNumber (withEOF ex_nth_match) (skipWhitespace (withEOF ex_nth_match) 2) \<and>
    \<not> isString (withEOF ex_nth_match) (skipWhitespace (withEOF ex_nth_match) 2)) \<and>
   consumeArgument '':nth-match(li, 2)'' (withEOF ex_nth_match) 2 =
     (case consumeComplexSelector '':nth-match(li, 2)'' (withEOF ex_nth_match)
             (skipWhitespace (withEOF ex_nth_match) 2) of
        Inl e \<Rightarrow> Inl e
      | Inr (c, p) \<Rightarrow> Inr (ArgSelector c, p)) \<and>
   consumeArgument '':nth-match(li, 2)'' (withEOF ex_nth_match) 2 =
     Inr (ArgSelector (CSSComplexSelector
            [CSSClause (CSSSimpleSelector (Some ''li'') []) []]), 3) \<and>
   (isColon (withEOF ex_has_text) 0 \<and> isFunction (withEOF ex_has_text) (0 + 1) \<and>
    val (withEOF ex_has_text ! (0 + 1)) \<notin> set builtinCSSFunctions \<and>
    isString (withEOF ex_has_text) (0 + 2) \<and> isCloseParen (withEOF ex_has_text) (0 + 3)) \<and>
   consumeSimpleSelector_loop ''s'' (withEOF ex_has_text) 0 [] [] =
     consumeSimpleSelector_loop ''s'' (withEOF ex_has_text) (0 + 4) []
       ([] @ [CSSFunction (val (withEOF ex_has_text ! (0 + 1)))
                [ArgString (val (withEOF ex_has_text ! (0 + 2)))]]) \<and>
   parseCSS (tokenizeTo ex_nth_match) '':nth-match(li, 2)'' =
     Inr [CSSComplexSelector
            [CSSClause (CSSSimpleSelector None
               [CSSFunction ''nth-match''
                  [ArgSelector (CSSComplexSelector
                     [CSSClause (CSSSimpleSelector (Some ''li'') []) []]),
                   ArgNumber 2]]) []]]"
proof -
  have h1: "isNumber (withEOF ex_nth_match) (skipWhitespace (withEOF ex_nth_match) 4)"
    by code_simp
  have h2: "isString (withEOF ex_has_text) (skipWhitespace (withEOF ex_has_text) 2)"
    by code_simp
  have h3: "\<not> isNumber (withEOF ex_nth_match) (skipWhitespace (withEOF ex_nth_match) 2) \<and>
    \<not> isString (withEOF ex_nth_match) (skipWhitespace (withEOF ex_nth_match) 2)"
    by code_simp
  have h4: "isColon (withEOF ex_has_text) 0 \<and> isFunction (withEOF ex_has_text) (0 + 1) \<and>
    val (withEOF ex_has_text ! (0 + 1)) \<notin> set builtinCSSFunctions \<and>
    isString (withEOF ex_has_text) (0 + 2) \<and> isCloseParen (withEOF ex_has_text) (0 + 3)"
    by code_simp
  have e1: "consumeArgument '':nth-match(li, 2)'' (withEOF ex_nth_match) 4 =
      Inr (ArgNumber 2, 6)"
    by code_simp
  have e2: "consumeArgument ''s'' (withEOF ex_has_text) 2 = Inr (ArgString ''foo'', 3)"
    by code_simp
  have e3: "consumeArgument '':nth-match(li, 2)'' (withEOF ex_nth_match) 2 =
     Inr (ArgSelector (CSSComplexSelector
            [CSSClause (CSSSimpleSelector (Some ''li'') []) []]), 3)"
    by code_simp
  have e4: "parseCSS (tokenizeTo ex_nth_match) '':nth-match(li, 2)'' =
     Inr [CSSComplexSelector
            [CSSClause (CSSSimpleSelector None
               [CSSFunction ''nth-match''
                  [ArgSelector (CSSComplexSelector
                     [CSSClause (CSSSimpleSelector (Some ''li'') []) []]),
                   ArgNumber 2]]) []]]"
    by code_simp
  note t = consumeArgument_disambiguation
  note c1 = t[of "withEOF ex_nth_match" 4 "'':nth-match(li, 2)''" "[]" "[]",
      THEN conjunct1, rule_format, OF h1]
  note c2 = t[of "withEOF ex_has_text" 2 "''s''" "[]" "[]",
      THEN conjunct2, THEN conjunct1, rule_format, OF h2]
  note c3 = t[of "withEOF ex_nth_match" 2 "'':nth-match(li, 2)''" "[]" "[]",
      THEN conjunct2, THEN conjunct2, THEN conjunct1, rule_format, OF h3]
  note c4 = t[of "withEOF ex_has_text" 0 "''s''" "[]" "[]",
      THEN conjunct2, THEN conjunct2, THEN conjunct2, THEN conjunct1, rule_format, OF h4]
  show ?thesis
    by (intro conjI h1 c1 e1 h2 c2 e2 h3[THEN conjunct1] h3[THEN conjunct2] c3 e3
        h4[THEN conjunct1] h4[THEN conjunct2, THEN conjunct1]
        h4[THEN conjunct2, THEN conjunct2, THEN conjunct1]
        h4[THEN conjunct2, THEN conjunct2, THEN conjunct2, THEN conjunct1]
        h4[THEN conjunct2, THEN conjunct2, THEN conjunct2, THEN conjunct2] c4 e4)
qed

section \<open>C5: the unsupported-token guard\<close>

lemma find_append_Some: "find P xs = Some x \<Longrightarrow> find P (xs @ ys) = Some x"
  by (induction xs) (auto split: if_splits)

lemma find_withEOF_Some:
  "find unsupported tokens0 = Some t \<Longrightarrow> find unsupported (withEOF tokens0) = Some t"
  by (simp add: withEOF_def find_append_Some)

definition ex_semicolon :: "nat token list" where
  "ex_semicolon = [IdentToken ''div'' ''div'', SemicolonToken '';'', OpenCurlyToken ''{'']"

text \<open>
  C5. When the token sequence of the tokenizer contains a token of a rejected kind,
  \<^verbatim>\<open>parseCSS\<close> returns the error \<^verbatim>\<open>Unsupported token "<source>" while parsing selector "<selector>"\<close>
  for the first such token of the sequence, whatever the parser would do on the tokens:
  no other error can result.
\<close>

theorem parseCSS_unsupported_token:
  assumes "tokenize sel = Inr tokens0"
    and "\<exists>t \<in> set tokens0. unsupported t"
  shows "\<exists>t. find unsupported tokens0 = Some t \<and> t \<in> set tokens0 \<and> unsupported t \<and>
           parseCSS tokenize sel =
             Inl (Error (''Unsupported token '' @ dq @ toSource t @ dq @
                         '' while parsing selector '' @ dq @ sel @ dq))"
proof -
  from assms(2) obtain t where t: "find unsupported tokens0 = Some t"
    by (cases "find unsupported tokens0") (auto simp: find_None_iff)
  then have "t \<in> set tokens0" "unsupported t"
    by (auto simp: find_Some_iff)
  moreover from t assms(1)
  have "parseCSS tokenize sel =
          Inl (Error (''Unsupported token '' @ dq @ toSource t @ dq @
                      '' while parsing selector '' @ dq @ sel @ dq))"
    by (simp add: parseCSS_def find_withEOF_Some whileParsing_def)
  ultimately show ?thesis using t by blast
qed

theorem parseCSS_unsupported_token_witness:
  "tokenizeTo ex_semicolon ''div;{'' = Inr ex_semicolon \<and>
   (\<exists>t. t \<in> set ex_semicolon \<and> unsupported t) \<and>
   find unsupported ex_semicolon = Some (SemicolonToken '';'') \<and>
   parseCSS (tokenizeTo ex_semicolon) ''div;{'' =
     Inl (Error (''Unsupported token '' @ dq @ '';'' @ dq @
                 '' while parsing selector '' @ dq @ ''div;{'' @ dq))"
proof -
  have h1: "tokenizeTo ex_semicolon ''div;{'' = Inr ex_semicolon"
    by (rule tokenizeTo_Inr)
  have h2: "\<exists>t \<in> set ex_semicolon. unsupported t"
    by (simp add: ex_semicolon_def unsupported_def)
  have f: "find unsupported ex_semicolon = Some (SemicolonToken '';'')"
    by (simp add: ex_semicolon_def unsupported_def)
  from parseCSS_unsupported_token
         [of "tokenizeTo ex_semicolon" "''div;{''" ex_semicolon, OF h1 h2] f
  have "parseCSS (tokenizeTo ex_semicolon) ''div;{'' =
     Inl (Error (''Unsupported token '' @ dq @ '';'' @ dq @
                 '' while parsing selector '' @ dq @ ''div;{'' @ dq))"
    by auto
  moreover from h2 have "\<exists>t. t \<in> set ex_semicolon \<and> unsupported t"
    by blast
  ultimately show ?thesis using h1 f by (intro conjI)
qed

section \<open>C6: empty selectors\<close>

definition ex_spaces :: "nat token list" where
  "ex_spaces = [WhitespaceToken ''  '']"

lemma skipWhitespace_prefix:
  assumes "list_all is_WhitespaceToken ws" and "\<not> is_WhitespaceToken t"
    and "i \<le> length ws"
  shows "skipWhitespace (ws @ t # rest) i = length ws"
  using assms(3)
proof (induction "length ws - i" arbitrary: i)
  case 0
  then have "i = length ws" by simp
  with assms(2) show ?case
    by (subst skipWhitespace.simps) (simp add: isWhitespace_def tokAt_def)
next
  case (Suc n)
  then have lt: "i < length ws" by simp
  with assms(1) have "is_WhitespaceToken (ws ! i)"
    by (simp add: list_all_length)
  with lt have w: "isWhitespace (ws @ t # rest) i"
    by (simp add: isWhitespace_def tokAt_def nth_append)
  from Suc lt have "skipWhitespace (ws @ t # rest) (i + 1) = length ws"
    by (intro Suc.hyps(1)) simp_all
  with w show ?case
    by (subst skipWhitespace.simps) simp
qed

lemma whitespace_only_fails:
  assumes ws: "list_all is_WhitespaceToken ws"
  shows "consumeFunctionArguments sel (ws @ [EOFToken src]) 0 =
           Inl (Error (''Unexpected token '' @ dq @ src @ dq @
                       '' while parsing selector '' @ dq @ sel @ dq))"
proof -
  let ?ts = "ws @ [EOFToken src]"
  have sw: "skipWhitespace ?ts 0 = length ws"
    using ws by (intro skipWhitespace_prefix) simp_all
  have eof: "isEOF ?ts (length ws)"
    by (simp add: isEOF_def tokAt_def)
  then have here: "\<not> isNumber ?ts (length ws)" "\<not> isString ?ts (length ws)"
    "\<not> isWhitespace ?ts (length ws)" "isSelectorClauseEnd ?ts (length ws)"
    by (auto simp: is_defs tokAt_def)
  have u: "unexpected sel ?ts (length ws) =
      Error (''Unexpected token '' @ dq @ src @ dq @
             '' while parsing selector '' @ dq @ sel @ dq)"
    by (simp add: unexpected_def tokAt_def)
  have "consumeArgument sel ?ts 0 = Inl (unexpected sel ?ts (length ws))"
    using here
    by (simp add: consumeArgument.simps consumeComplexSelector.simps Let_def sw
        skipWhitespace_id simple_at_end)
  with u show ?thesis
    by (simp add: consumeFunctionArguments.simps)
qed

text \<open>
  C6. When the tokenizer returns only whitespace tokens (or none), with or without an
  end-of-input token after them, \<^verbatim>\<open>parseCSS\<close> fails with "unexpected token" at the
  end-of-input token: the simple selector there is empty. A simple selector that
  starts on a clause terminator is this error, and a simple selector that is returned
  has non-empty raw CSS or at least one function.
\<close>

theorem parseCSS_empty_selector_fails:
  "(tokenize sel = Inr (ws @ es) \<and> list_all is_WhitespaceToken ws \<and>
    (es = [] \<and> src = [] \<or> es = [EOFToken src]) \<longrightarrow>
      parseCSS tokenize sel =
        Inl (Error (''Unexpected token '' @ dq @ src @ dq @
                    '' while parsing selector '' @ dq @ sel @ dq))) \<and>
   (isSelectorClauseEnd tokens pos \<longrightarrow>
      consumeSimpleSelector sel tokens pos = Inl (unexpected sel tokens pos)) \<and>
   (consumeSimpleSelector sel tokens pos = Inr (s, p) \<longrightarrow>
      (css s \<noteq> None \<or> functions' s \<noteq> []) \<and> css s \<noteq> Some [])"
proof -
  have p1: "tokenize sel = Inr (ws @ es) \<and> list_all is_WhitespaceToken ws \<and>
    (es = [] \<and> src = [] \<or> es = [EOFToken src]) \<longrightarrow>
      parseCSS tokenize sel =
        Inl (Error (''Unexpected token '' @ dq @ src @ dq @
                    '' while parsing selector '' @ dq @ sel @ dq))"
  proof
    assume a: "tokenize sel = Inr (ws @ es) \<and> list_all is_WhitespaceToken ws \<and>
      (es = [] \<and> src = [] \<or> es = [EOFToken src])"
    then have ws: "list_all is_WhitespaceToken ws" by simp
    have "ws \<noteq> [] \<Longrightarrow> \<not> is_EOFToken (last ws)"
    proof -
      assume "ws \<noteq> []"
      with ws have "is_WhitespaceToken (last ws)" by (simp add: list_all_iff)
      then show ?thesis by (cases "last ws") simp_all
    qed
    with a have t: "withEOF (ws @ es) = ws @ [EOFToken src]"
      by (auto simp: withEOF_def)
    have "\<not> unsupported x" if "x \<in> set (ws @ [EOFToken src])" for x
    proof (cases "x \<in> set ws")
      case True
      with ws have "is_WhitespaceToken x" by (simp add: list_all_iff)
      then show ?thesis by (cases x) (simp_all add: unsupported_def)
    next
      case False
      with that have "x = EOFToken src" by simp
      then show ?thesis by (simp add: unsupported_def)
    qed
    then have u: "find unsupported (ws @ [EOFToken src]) = None"
      unfolding find_None_iff by blast
    from a t u whitespace_only_fails[OF ws, of sel src]
    show "parseCSS tokenize sel =
          Inl (Error (''Unexpected token '' @ dq @ src @ dq @
                      '' while parsing selector '' @ dq @ sel @ dq))"
      by (simp add: parseCSS_def)
  qed
  have p2: "isSelectorClauseEnd tokens pos \<longrightarrow>
      consumeSimpleSelector sel tokens pos = Inl (unexpected sel tokens pos)"
    by (simp add: simple_at_end)
  have p3: "consumeSimpleSelector sel tokens pos = Inr (s, p) \<longrightarrow>
      (css s \<noteq> None \<or> functions' s \<noteq> []) \<and> css s \<noteq> Some []"
  proof
    assume "consumeSimpleSelector sel tokens pos = Inr (s, p)"
    with parser_wf(6) have "okSimple s" by blast
    then show "(css s \<noteq> None \<or> functions' s \<noteq> []) \<and> css s \<noteq> Some []"
      by (cases s) simp
  qed
  show ?thesis
    by (intro conjI p1 p2 p3)
qed

theorem parseCSS_empty_selector_fails_witness:
  "(tokenizeTo ex_spaces ''  '' = Inr (ex_spaces @ []) \<and> list_all is_WhitespaceToken ex_spaces) \<and>
   parseCSS (tokenizeTo ex_spaces) ''  '' =
     Inl (Error (''Unexpected token '' @ dq @ [] @ dq @
                 '' while parsing selector '' @ dq @ ''  '' @ dq)) \<and>
   tokenizeTo [] [] = Inr ([] @ []) \<and>
   parseCSS (tokenizeTo []) [] =
     Inl (Error (''Unexpected token '' @ dq @ [] @ dq @
                 '' while parsing selector '' @ dq @ [] @ dq)) \<and>
   isSelectorClauseEnd (withEOF ex_spaces) 0 \<and>
   consumeSimpleSelector ''  '' (withEOF ex_spaces) 0 =
     Inl (unexpected ''  '' (withEOF ex_spaces) 0) \<and>
   consumeSimpleSelector ''div'' [IdentToken ''div'' ''div'', EOFToken [] :: nat token] 0 =
     Inr (CSSSimpleSelector (Some ''div'') [], 1) \<and>
   css (CSSSimpleSelector (Some ''div'') [] :: nat CSSSimpleSelector) \<noteq> Some []"
proof -
  note t = parseCSS_empty_selector_fails
  have h1: "tokenizeTo ex_spaces ''  '' = Inr (ex_spaces @ []) \<and>
      list_all is_WhitespaceToken ex_spaces \<and>
      (([] :: nat token list) = [] \<and> ([] :: string) = [] \<or> [] = [EOFToken []])"
    by (simp add: tokenizeTo_def ex_spaces_def)
  have h2: "tokenizeTo [] [] = Inr ([] @ []) \<and>
      list_all is_WhitespaceToken ([] :: nat token list) \<and>
      (([] :: nat token list) = [] \<and> ([] :: string) = [] \<or> [] = [EOFToken []])"
    by (simp add: tokenizeTo_def)
  have h3: "isSelectorClauseEnd (withEOF ex_spaces) 0"
    by code_simp
  have h4: "consumeSimpleSelector ''div'' [IdentToken ''div'' ''div'', EOFToken [] :: nat token] 0 =
     Inr (CSSSimpleSelector (Some ''div'') [], 1)"
    by code_simp
  note c1 = t[of "tokenizeTo ex_spaces" "''  ''" ex_spaces "[]" "[]",
      THEN conjunct1, rule_format, OF h1]
  note c2 = t[of "tokenizeTo []" "[]" "[]" "[]" "[]",
      THEN conjunct1, rule_format, OF h2]
  note c3 = t[of _ "''  ''" _ _ _ "withEOF ex_spaces" 0,
      THEN conjunct2, THEN conjunct1, rule_format, OF h3]
  note c4 = t[of _ "''div''" _ _ _ "[IdentToken ''div'' ''div'', EOFToken []]" 0
      "CSSSimpleSelector (Some ''div'') []" 1,
      THEN conjunct2, THEN conjunct2, rule_format, OF h4]
  show ?thesis
    by (intro conjI h1[THEN conjunct1] h1[THEN conjunct2, THEN conjunct1] c1
        h2[THEN conjunct1] c2 h3 c3 h4 c4[THEN conjunct2])
qed

section \<open>C7: clause sequences\<close>

definition ex_nested :: "nat token list" where
  "ex_nested =
     [IdentToken ''div'' ''div'', WhitespaceToken '' '', DelimToken ''>'' ''>'',
      WhitespaceToken '' '', IdentToken ''span'' ''span'', ColonToken '':'',
      FunctionToken ''has('' ''has'', IdentToken ''a'' ''a'', WhitespaceToken '' '',
      DelimToken ''+'' ''+'', WhitespaceToken '' '', IdentToken ''b'' ''b'',
      CloseParenToken '')'']"

text \<open>
  C7. Every complex selector \<^verbatim>\<open>parseCSS\<close> returns has at least one clause, and the
  combinator of its last clause is the empty string; the same holds of every complex
  selector nested in it as an argument of a function, at any depth (\<open>okComplex\<close>).
\<close>

theorem parseCSS_clauses_nonempty_last_combinator_empty:
  assumes "parseCSS tokenize sel = Inr r"
  shows "list_all okComplex r \<and>
         (\<forall>c \<in> set r. simple c \<noteq> [] \<and> combinator (last (simple c)) = [])"
proof -
  from parseCSS_Inr[OF assms] obtain tokens0 result pos
    where c: "consumeFunctionArguments sel (withEOF tokens0) 0 = Inr (result, pos)"
      and a: "list_all is_ArgSelector result"
      and r: "r = map complexSelector result"
    by blast
  from parser_wf(1) c have ok: "list_all okArgument result" by blast
  have "okComplex (complexSelector x)" if "x \<in> set result" for x
  proof -
    from that a have "is_ArgSelector x" by (simp add: list_all_iff)
    moreover from that ok have "okArgument x" by (simp add: list_all_iff)
    ultimately show ?thesis by (cases x) simp_all
  qed
  with r have all: "list_all okComplex r"
    by (simp add: list_all_iff)
  have "simple c \<noteq> [] \<and> combinator (last (simple c)) = []" if "c \<in> set r" for c
  proof -
    from that all have "okComplex c" by (simp add: list_all_iff)
    then show ?thesis by (cases c) simp
  qed
  with all show ?thesis by blast
qed

theorem parseCSS_clauses_nonempty_last_combinator_empty_witness:
  "parseCSS (tokenizeTo ex_nested) ''div > span:has(a + b)'' =
     Inr [CSSComplexSelector
            [CSSClause (CSSSimpleSelector (Some ''div'') []) ''>'',
             CSSClause (CSSSimpleSelector (Some ''span'')
               [CSSFunction ''has''
                  [ArgSelector (CSSComplexSelector
                     [CSSClause (CSSSimpleSelector (Some ''a'') []) ''+'',
                      CSSClause (CSSSimpleSelector (Some ''b'') []) []])]]) []]] \<and>
   list_all okComplex
     [CSSComplexSelector
        [CSSClause (CSSSimpleSelector (Some ''div'') []) ''>'',
         CSSClause (CSSSimpleSelector (Some ''span'')
           [CSSFunction ''has''
              [ArgSelector (CSSComplexSelector
                 [CSSClause (CSSSimpleSelector (Some ''a'') []) ''+'',
                  CSSClause (CSSSimpleSelector (Some ''b'') []) []])]]) []] ::
      nat CSSComplexSelector]"
proof -
  have e: "parseCSS (tokenizeTo ex_nested) ''div > span:has(a + b)'' =
     Inr [CSSComplexSelector
            [CSSClause (CSSSimpleSelector (Some ''div'') []) ''>'',
             CSSClause (CSSSimpleSelector (Some ''span'')
               [CSSFunction ''has''
                  [ArgSelector (CSSComplexSelector
                     [CSSClause (CSSSimpleSelector (Some ''a'') []) ''+'',
                      CSSClause (CSSSimpleSelector (Some ''b'') []) []])]]) []]]"
    by code_simp
  from parseCSS_clauses_nonempty_last_combinator_empty[OF e, THEN conjunct1] e
  show ?thesis by (intro conjI)
qed

section \<open>C8: termination and unterminated constructs\<close>

















section \<open>C9: combinators\<close>

definition ex_div_span :: "nat token list" where
  "ex_div_span =
     [IdentToken ''div'' ''div'', WhitespaceToken '' '', DelimToken ''>'' ''>'',
      WhitespaceToken '' '', IdentToken ''span'' ''span'']"

definition ex_div_gt_gt :: "nat token list" where
  "ex_div_gt_gt =
     [IdentToken ''div'' ''div'', DelimToken ''>'' ''>'', DelimToken ''>'' ''>'',
      IdentToken ''span'' ''span'']"

lemma list_update_last: "xs \<noteq> [] \<Longrightarrow> xs[length xs - Suc 0 := x] = butlast xs @ [x]"
  by (induction xs rule: rev_induct) simp_all

text \<open>
  C9. In the loop of \<^verbatim>\<open>consumeComplexSelector\<close>, when the next token after whitespace is
  one of the delimiters \<open>>\<close>, \<open>+\<close>, \<open>~\<close>, its value replaces the combinator of the last
  clause parsed so far, and a simple selector is parsed after the whitespace that
  follows: its error is the error of the loop, and otherwise it is appended with the
  empty combinator. If a clause terminator stands there, the loop fails with
  "unexpected token" at it. \<^verbatim>\<open>div > span\<close> parses to one complex selector of the two
  clauses \<open>(div, >)\<close> and \<open>(span, empty)\<close>.
\<close>

theorem combinator_attaches_to_preceding:
  "(isClauseCombinator tokens (skipWhitespace tokens pos) \<and> result \<noteq> [] \<longrightarrow>
      consumeComplexSelector_loop sel tokens pos result =
        (case consumeSimpleSelector sel tokens
                (skipWhitespace tokens (skipWhitespace tokens pos + 1)) of
           Inl e \<Rightarrow> Inl e
         | Inr (s, pos3) \<Rightarrow>
             consumeComplexSelector_loop sel tokens pos3
               (butlast result @
                [CSSClause (selector (last result)) (val (tokens ! skipWhitespace tokens pos)),
                 CSSClause s []]))) \<and>
   (isClauseCombinator tokens (skipWhitespace tokens pos) \<and> result \<noteq> [] \<and>
    isSelectorClauseEnd tokens (skipWhitespace tokens (skipWhitespace tokens pos + 1)) \<longrightarrow>
      consumeComplexSelector_loop sel tokens pos result =
        Inl (unexpected sel tokens (skipWhitespace tokens (skipWhitespace tokens pos + 1)))) \<and>
   parseCSS (tokenizeTo ex_div_span) ''div > span'' =
     Inr [CSSComplexSelector
            [CSSClause (CSSSimpleSelector (Some ''div'') []) ''>'',
             CSSClause (CSSSimpleSelector (Some ''span'') []) []]]"
proof (intro conjI impI)
  assume a: "isClauseCombinator tokens (skipWhitespace tokens pos) \<and> result \<noteq> []"
  then show "consumeComplexSelector_loop sel tokens pos result =
        (case consumeSimpleSelector sel tokens
                (skipWhitespace tokens (skipWhitespace tokens pos + 1)) of
           Inl e \<Rightarrow> Inl e
         | Inr (s, pos3) \<Rightarrow>
             consumeComplexSelector_loop sel tokens pos3
               (butlast result @
                [CSSClause (selector (last result)) (val (tokens ! skipWhitespace tokens pos)),
                 CSSClause s []]))"
    by (subst consumeComplexSelector_loop.simps)
       (simp add: Let_def list_update_last split: sum.splits)
next
  assume a: "isClauseCombinator tokens (skipWhitespace tokens pos) \<and> result \<noteq> [] \<and>
    isSelectorClauseEnd tokens (skipWhitespace tokens (skipWhitespace tokens pos + 1))"
  then show "consumeComplexSelector_loop sel tokens pos result =
        Inl (unexpected sel tokens (skipWhitespace tokens (skipWhitespace tokens pos + 1)))"
    by (subst consumeComplexSelector_loop.simps) (simp add: Let_def simple_at_end)
next
  show "parseCSS (tokenizeTo ex_div_span) ''div > span'' =
     Inr [CSSComplexSelector
            [CSSClause (CSSSimpleSelector (Some ''div'') []) ''>'',
             CSSClause (CSSSimpleSelector (Some ''span'') []) []]]"
    by code_simp
qed

theorem combinator_attaches_to_preceding_witness:
  "(isClauseCombinator (withEOF ex_div_span) (skipWhitespace (withEOF ex_div_span) 1) \<and>
      [CSSClause (CSSSimpleSelector (Some ''div'') []) []] \<noteq> ([] :: nat CSSClause list)) \<and>
   consumeComplexSelector_loop ''div > span'' (withEOF ex_div_span) 1
       [CSSClause (CSSSimpleSelector (Some ''div'') []) []] =
     (case consumeSimpleSelector ''div > span'' (withEOF ex_div_span)
             (skipWhitespace (withEOF ex_div_span)
                (skipWhitespace (withEOF ex_div_span) 1 + 1)) of
        Inl e \<Rightarrow> Inl e
      | Inr (s, pos3) \<Rightarrow>
          consumeComplexSelector_loop ''div > span'' (withEOF ex_div_span) pos3
            (butlast [CSSClause (CSSSimpleSelector (Some ''div'') []) []] @
             [CSSClause (selector (last [CSSClause (CSSSimpleSelector (Some ''div'') []) []]))
                (val (withEOF ex_div_span ! skipWhitespace (withEOF ex_div_span) 1)),
              CSSClause s []])) \<and>
   consumeComplexSelector_loop ''div > span'' (withEOF ex_div_span) 1
       [CSSClause (CSSSimpleSelector (Some ''div'') []) []] =
     Inr (CSSComplexSelector
            [CSSClause (CSSSimpleSelector (Some ''div'') []) ''>'',
             CSSClause (CSSSimpleSelector (Some ''span'') []) []], 5) \<and>
   (isClauseCombinator (withEOF ex_div_gt_gt) (skipWhitespace (withEOF ex_div_gt_gt) 1) \<and>
      [CSSClause (CSSSimpleSelector (Some ''div'') []) []] \<noteq> ([] :: nat CSSClause list) \<and>
      isSelectorClauseEnd (withEOF ex_div_gt_gt)
        (skipWhitespace (withEOF ex_div_gt_gt)
           (skipWhitespace (withEOF ex_div_gt_gt) 1 + 1))) \<and>
   consumeComplexSelector_loop ''div>>span'' (withEOF ex_div_gt_gt) 1
       [CSSClause (CSSSimpleSelector (Some ''div'') []) []] =
     Inl (unexpected ''div>>span'' (withEOF ex_div_gt_gt)
            (skipWhitespace (withEOF ex_div_gt_gt)
               (skipWhitespace (withEOF ex_div_gt_gt) 1 + 1))) \<and>
   parseCSS (tokenizeTo ex_div_gt_gt) ''div>>span'' =
     Inl (Error (''Unexpected token '' @ dq @ ''>'' @ dq @ '' while parsing selector '' @
                 dq @ ''div>>span'' @ dq))"
proof -
  have h1: "isClauseCombinator (withEOF ex_div_span) (skipWhitespace (withEOF ex_div_span) 1) \<and>
      [CSSClause (CSSSimpleSelector (Some ''div'') []) []] \<noteq> ([] :: nat CSSClause list)"
    by code_simp
  have h2: "isClauseCombinator (withEOF ex_div_gt_gt) (skipWhitespace (withEOF ex_div_gt_gt) 1) \<and>
      [CSSClause (CSSSimpleSelector (Some ''div'') []) []] \<noteq> ([] :: nat CSSClause list) \<and>
      isSelectorClauseEnd (withEOF ex_div_gt_gt)
        (skipWhitespace (withEOF ex_div_gt_gt)
           (skipWhitespace (withEOF ex_div_gt_gt) 1 + 1))"
    by code_simp
  have e1: "consumeComplexSelector_loop ''div > span'' (withEOF ex_div_span) 1
       [CSSClause (CSSSimpleSelector (Some ''div'') []) []] =
     Inr (CSSComplexSelector
            [CSSClause (CSSSimpleSelector (Some ''div'') []) ''>'',
             CSSClause (CSSSimpleSelector (Some ''span'') []) []], 5)"
    by code_simp
  have e2: "parseCSS (tokenizeTo ex_div_gt_gt) ''div>>span'' =
     Inl (Error (''Unexpected token '' @ dq @ ''>'' @ dq @ '' while parsing selector '' @
                 dq @ ''div>>span'' @ dq))"
    by code_simp
  note t = combinator_attaches_to_preceding
  note c1 = t[of "withEOF ex_div_span" 1 "[CSSClause (CSSSimpleSelector (Some ''div'') []) []]"
      "''div > span''", THEN conjunct1, rule_format, OF h1]
  note c2 = t[of "withEOF ex_div_gt_gt" 1 "[CSSClause (CSSSimpleSelector (Some ''div'') []) []]"
      "''div>>span''", THEN conjunct2, THEN conjunct1, rule_format, OF h2]
  show ?thesis
    by (intro conjI h1[THEN conjunct1] h1[THEN conjunct2] c1 e1 h2[THEN conjunct1]
        h2[THEN conjunct2, THEN conjunct1] h2[THEN conjunct2, THEN conjunct2] c2 e2)
qed

section \<open>C10: a bare custom pseudo-class and a custom function with empty parentheses\<close>

definition ex_visible :: "nat token list" where
  "ex_visible = [ColonToken '':'', IdentToken ''visible'' ''visible'']"

definition ex_visible_parens :: "nat token list" where
  "ex_visible_parens =
     [ColonToken '':'', FunctionToken ''visible('' ''visible'', CloseParenToken '')'']"

text \<open>
  C10. In a simple selector, a colon followed by an identifier that is not a built-in
  pseudo-class records the function \<open>name\<close> with no arguments and parsing goes on after
  the identifier. A colon followed by a function token whose name is not a built-in
  pseudo-function, whose next token after optional whitespace is the close parenthesis,
  is the error "unexpected token" at that parenthesis: the argument list needs one
  argument and the argument found there is an empty simple selector.
\<close>

theorem custom_pseudo_bare_and_empty_parens:
  "(isColon tokens pos \<and> isIdent tokens (pos + 1) \<and>
      val (tokens ! (pos + 1)) \<notin> set builtinCSSFilters \<longrightarrow>
      consumeSimpleSelector_loop sel tokens pos rawCSSString fs =
        consumeSimpleSelector_loop sel tokens (pos + 2) rawCSSString
          (fs @ [CSSFunction (val (tokens ! (pos + 1))) []])) \<and>
   (isColon tokens pos \<and> isFunction tokens (pos + 1) \<and>
      val (tokens ! (pos + 1)) \<notin> set builtinCSSFunctions \<and>
      isCloseParen tokens (skipWhitespace tokens (pos + 2)) \<longrightarrow>
      consumeSimpleSelector_loop sel tokens pos rawCSSString fs =
        Inl (unexpected sel tokens (skipWhitespace tokens (pos + 2))))"
proof (intro conjI impI)
  assume a: "isColon tokens pos \<and> isIdent tokens (pos + 1) \<and>
      val (tokens ! (pos + 1)) \<notin> set builtinCSSFilters"
  then show "consumeSimpleSelector_loop sel tokens pos rawCSSString fs =
        consumeSimpleSelector_loop sel tokens (pos + 2) rawCSSString
          (fs @ [CSSFunction (val (tokens ! (pos + 1))) []])"
    using isColon_excl[of tokens pos]
    by (subst consumeSimpleSelector_loop.simps) simp
next
  assume a: "isColon tokens pos \<and> isFunction tokens (pos + 1) \<and>
      val (tokens ! (pos + 1)) \<notin> set builtinCSSFunctions \<and>
      isCloseParen tokens (skipWhitespace tokens (pos + 2))"
  then have "consumeFunctionArguments sel tokens (pos + 2) =
      Inl (unexpected sel tokens (skipWhitespace tokens (pos + 2)))"
    by (simp add: consumeFunctionArguments.simps argument_at_close)
  with a show "consumeSimpleSelector_loop sel tokens pos rawCSSString fs =
        Inl (unexpected sel tokens (skipWhitespace tokens (pos + 2)))"
    using isColon_excl[of tokens pos] isFunction_excl[of tokens "pos + 1"]
    by (subst consumeSimpleSelector_loop.simps) (simp add: Let_def)
qed

text \<open>
  The two forms on \<^verbatim>\<open>:visible\<close> and \<^verbatim>\<open>:visible()\<close>, with the whole parse of each.
\<close>

theorem custom_pseudo_bare_and_empty_parens_witness:
  "(isColon (withEOF ex_visible) 0 \<and> isIdent (withEOF ex_visible) (0 + 1) \<and>
      val (withEOF ex_visible ! (0 + 1)) \<notin> set builtinCSSFilters) \<and>
   consumeSimpleSelector_loop '':visible'' (withEOF ex_visible) 0 [] [] =
     consumeSimpleSelector_loop '':visible'' (withEOF ex_visible) (0 + 2) []
       ([] @ [CSSFunction (val (withEOF ex_visible ! (0 + 1))) []]) \<and>
   (isColon (withEOF ex_visible_parens) 0 \<and> isFunction (withEOF ex_visible_parens) (0 + 1) \<and>
      val (withEOF ex_visible_parens ! (0 + 1)) \<notin> set builtinCSSFunctions \<and>
      isCloseParen (withEOF ex_visible_parens)
        (skipWhitespace (withEOF ex_visible_parens) (0 + 2))) \<and>
   consumeSimpleSelector_loop '':visible()'' (withEOF ex_visible_parens) 0 [] [] =
     Inl (unexpected '':visible()'' (withEOF ex_visible_parens)
            (skipWhitespace (withEOF ex_visible_parens) (0 + 2))) \<and>
   parseCSS (tokenizeTo ex_visible) '':visible'' =
     Inr [CSSComplexSelector
            [CSSClause (CSSSimpleSelector None [CSSFunction ''visible'' []]) []]] \<and>
   parseCSS (tokenizeTo ex_visible_parens) '':visible()'' =
     Inl (Error (''Unexpected token '' @ dq @ '')'' @ dq @ '' while parsing selector '' @
                 dq @ '':visible()'' @ dq))"
proof -
  have h1: "isColon (withEOF ex_visible) 0 \<and> isIdent (withEOF ex_visible) (0 + 1) \<and>
      val (withEOF ex_visible ! (0 + 1)) \<notin> set builtinCSSFilters"
    by code_simp
  have h2: "isColon (withEOF ex_visible_parens) 0 \<and>
      isFunction (withEOF ex_visible_parens) (0 + 1) \<and>
      val (withEOF ex_visible_parens ! (0 + 1)) \<notin> set builtinCSSFunctions \<and>
      isCloseParen (withEOF ex_visible_parens)
        (skipWhitespace (withEOF ex_visible_parens) (0 + 2))"
    by code_simp
  have p1: "parseCSS (tokenizeTo ex_visible) '':visible'' =
     Inr [CSSComplexSelector
            [CSSClause (CSSSimpleSelector None [CSSFunction ''visible'' []]) []]]"
    by code_simp
  have p2: "parseCSS (tokenizeTo ex_visible_parens) '':visible()'' =
     Inl (Error (''Unexpected token '' @ dq @ '')'' @ dq @ '' while parsing selector '' @
                 dq @ '':visible()'' @ dq))"
    by code_simp
  note thm1 = custom_pseudo_bare_and_empty_parens
    [of "withEOF ex_visible" 0 "'':visible''" "[]" "[]", THEN conjunct1, rule_format, OF h1]
  note thm2 = custom_pseudo_bare_and_empty_parens
    [of "withEOF ex_visible_parens" 0 "'':visible()''" "[]" "[]", THEN conjunct2,
     rule_format, OF h2]
  from h1 h2 p1 p2 thm1 thm2 show ?thesis by blast
qed

end
